theory Spec2Isabelle
  imports Complex_Main "HOL-Library.Word"
begin

section \<open>Controller.h: the separated controller\<close>

text \<open>
  The C++ type \<^verbatim>\<open>double\<close> is idealised as \<^typ>\<open>real\<close> throughout: sums, quotients
  and comparisons are those of the real numbers. Concrete inputs below use values that
  a double represents exactly unless stated otherwise.
\<close>

subsection \<open>Beliefs, linear systems, collaborators\<close>

type_synonym control = "real list"
type_synonym observation = "real list"

text \<open>
  Modelled from the spec: the belief state class (\<^verbatim>\<open>StateType\<close>) is declared
  elsewhere in the repository. Controller.h reads its arma data (x, y, yaw; only the
  first two entries are used) and its covariance matrix.
\<close>

record belief =
  X :: real
  Y :: real
  Yaw :: real
  covariance :: "real list list"

text \<open>\<^verbatim>\<open>arma::trace\<close>: the sum of the diagonal.\<close>

definition trace :: "real list list \<Rightarrow> real" where
  "trace m = (\<Sum>i\<leftarrow>[0..<length m]. m ! i ! i)"

text \<open>\<^verbatim>\<open>norm(v.subvec(0,1), 2)\<close> of a planar difference.\<close>

definition norm2 :: "real \<Rightarrow> real \<Rightarrow> real" where
  "norm2 dx dy = sqrt (dx * dx + dy * dy)"

text \<open>
  Modelled from the spec: \<^verbatim>\<open>LinearSystem\<close> is declared elsewhere. A value records
  the nominal state and control it was built at; the six-argument constructor used by
  \<^verbatim>\<open>Evolve\<close> also takes the current observation, the five-argument one used by the
  controller's constructor does not.
\<close>

datatype LinearSystem = LinearSystem (getX: belief) (getU: control) (getZ: "observation option")

text \<open>
  The space information \<^verbatim>\<open>si_\<close> is an external collaborator. Its hidden true state
  (and whatever else the simulator keeps) is the world \<open>'w\<close>; its operations are
  parameters.
\<close>

record 'w SpaceInformation =
  applyControl :: "control \<Rightarrow> 'w \<Rightarrow> 'w"
  getObservation :: "'w \<Rightarrow> observation"
  checkTrueStateValidity :: "'w \<Rightarrow> bool"
  setBelief :: "belief \<Rightarrow> 'w \<Rightarrow> 'w"
  getZeroControl :: control

text \<open>
  The controller object. \<^verbatim>\<open>separatedController_\<close> and \<^verbatim>\<open>filter_\<close> are template
  parameters of the class, represented by the one operation of each that the class
  calls. The static thresholds are fields as well.
\<close>

record 'w Controller =
  si :: "'w SpaceInformation"
  lss :: "LinearSystem list"
  generateFeedbackControl :: "belief \<Rightarrow> nat \<Rightarrow> control"
  filterEvolve :: "belief \<Rightarrow> control \<Rightarrow> observation \<Rightarrow> LinearSystem \<Rightarrow> LinearSystem \<Rightarrow> belief"
  goal :: belief
  tries :: int
  nodeReachedDistance :: real
  nominalTrajDeviationThreshold :: real
  maxExecTime :: real

text \<open>The constructor (lines 198-236): one linear system per nominal state.\<close>

definition mkController ::
  "'w SpaceInformation \<Rightarrow> belief \<Rightarrow> belief list \<Rightarrow> control list
   \<Rightarrow> (belief \<Rightarrow> nat \<Rightarrow> control)
   \<Rightarrow> (belief \<Rightarrow> control \<Rightarrow> observation \<Rightarrow> LinearSystem \<Rightarrow> LinearSystem \<Rightarrow> belief)
   \<Rightarrow> real \<Rightarrow> real \<Rightarrow> 'w Controller" where
  "mkController sinfo g nominalXs nominalUs sepController filt reachDist devThreshold =
     \<lparr> si = sinfo,
       lss = map (\<lambda>i. LinearSystem (nominalXs ! i) (nominalUs ! i) None) [0..<length nominalXs],
       generateFeedbackControl = sepController,
       filterEvolve = filt,
       goal = g,
       tries = 0,
       nodeReachedDistance = reachDist,
       nominalTrajDeviationThreshold = devThreshold,
       maxExecTime = of_int \<lceil>real (length nominalXs * 3)\<rceil> \<rparr>"

definition Length :: "'w Controller \<Rightarrow> nat" where
  "Length c = length (lss c)"

subsection \<open>Evolve (lines 478-518)\<close>

text \<open>
  The pair (current, next) handed to the filter. \<^verbatim>\<open>Length()\<close> and \<open>t\<close> are
  \<^verbatim>\<open>size_t\<close>; the test \<^verbatim>\<open>Length() > 0\<close> comes first, so \<^verbatim>\<open>Length()-1\<close> is only
  evaluated where it does not wrap and natural numbers are exact.
\<close>

definition Evolve_linearizations ::
  "'w Controller \<Rightarrow> nat \<Rightarrow> observation \<Rightarrow> LinearSystem \<times> LinearSystem" where
  "Evolve_linearizations c t zCorrected =
     (let goalLS = LinearSystem (goal c) (getZeroControl (si c)) (Some zCorrected) in
      if Length c > 0 \<and> t \<le> Length c - 1 then
        (if t = Length c - 1 then (lss c ! t, goalLS)
         else (lss c ! t, lss c ! (t + 1)))
      else (goalLS, goalLS))"

definition Evolve :: "'w Controller \<Rightarrow> belief \<Rightarrow> nat \<Rightarrow> 'w \<Rightarrow> belief \<times> 'w" where
  "Evolve c state t w =
     (let control = generateFeedbackControl c state t;
          w1 = applyControl (si c) control w;
          zCorrected = getObservation (si c) w1;
          lin = Evolve_linearizations c t zCorrected;
          nextBelief = filterEvolve c state control zCorrected (fst lin) (snd lin)
      in (nextBelief, setBelief (si c) nextBelief w1))"

subsection \<open>isTerminated (lines 572-589)\<close>

definition isTerminated :: "'w Controller \<Rightarrow> belief \<Rightarrow> nat \<Rightarrow> bool" where
  "isTerminated c state t =
     (let distance_to_goal = norm2 (X state - X (goal c)) (Y state - Y (goal c)) in
      if distance_to_goal > nodeReachedDistance c then False else True)"

subsection \<open>Execute (lines 239-368)\<close>

text \<open>
  Where the C++ has no defined result the model reports a failure instead of inventing a
  value: \<^verbatim>\<open>lss_[lss_.size()-1]\<close> of an empty trajectory is out of range; an
  \<^verbatim>\<open>assert\<close> can fail; a local variable can be read before it is assigned; a freed
  state can be read.
\<close>

datatype failure = OutOfRange | AssertionFailed | Uninitialized | UseAfterFree

definition nominalX :: "'w Controller \<Rightarrow> nat \<Rightarrow> failure + belief" where
  "nominalX c k =
     (if k < length (lss c) then Inr (getX (lss c ! k))
      else if length (lss c) = 0 then Inl OutOfRange
      else Inr (getX (lss c ! (length (lss c) - 1))))"

text \<open>The deviation test \<^verbatim>\<open>abs(norm(deviation,2)) > nominalTrajDeviationThreshold_\<close>.\<close>

definition deviates :: "'w Controller \<Rightarrow> belief \<Rightarrow> belief \<Rightarrow> bool" where
  "deviates c nominalX_K s =
     (\<bar>norm2 (X nominalX_K - X s) (Y nominalX_K - Y s)\<bar> > nominalTrajDeviationThreshold c)"

text \<open>
  The \<^verbatim>\<open>while\<close> loop of \<^verbatim>\<open>Execute\<close>. Nothing in the loop bounds the number of
  iterations, so the loop is a partial function: \<open>None\<close> is "does not return". The
  counter \<open>k\<close> is an \<^verbatim>\<open>unsigned int\<close>. The result is the return value, the counter,
  the accumulated cost, \<^verbatim>\<open>internalState\<close> and the world.
\<close>

partial_function (option) Execute_while ::
  "'w Controller \<Rightarrow> bool \<Rightarrow> 32 word \<Rightarrow> real \<Rightarrow> belief \<Rightarrow> belief \<Rightarrow> 'w
   \<Rightarrow> (failure + bool \<times> 32 word \<times> real \<times> belief \<times> 'w) option" where
  "Execute_while c constructionMode k cost internalState tempEndState w =
     (if \<not> isTerminated c tempEndState (unat k) then
        (let ev = Evolve c internalState (unat k) w;
             tempEndState' = fst ev;
             w' = snd ev;
             internalState' = tempEndState'
         in if constructionMode \<and> \<not> checkTrueStateValidity (si c) w'
            then Some (Inr (False, k, cost, internalState', w'))
            else (case nominalX c (unat k) of
                    Inl e \<Rightarrow> Some (Inl e)
                  | Inr nominalX_K \<Rightarrow>
                      if deviates c nominalX_K internalState' \<or> \<not> checkTrueStateValidity (si c) w'
                      then Some (Inr (False, k, cost, internalState', w'))
                      else Execute_while c constructionMode (k + 1)
                             (cost + trace (covariance internalState')) internalState' tempEndState' w'))
      else Some (Inr (True, k, cost, internalState, w)))"

text \<open>
  \<^verbatim>\<open>Execute\<close>: the out-parameters \<^verbatim>\<open>filteringCost\<close>, \<^verbatim>\<open>stepsTaken\<close> and
  \<^verbatim>\<open>timeToStop\<close> are written on the successful return only, so their values at the
  call are inputs. The result is (return value, \<^verbatim>\<open>endState\<close>, \<^verbatim>\<open>filteringCost\<close>,
  \<^verbatim>\<open>stepsTaken\<close>, \<^verbatim>\<open>timeToStop\<close>, world).
\<close>

definition Execute ::
  "'w Controller \<Rightarrow> belief \<Rightarrow> real \<Rightarrow> int \<Rightarrow> int \<Rightarrow> bool \<Rightarrow> 'w
   \<Rightarrow> (failure + bool \<times> belief \<times> real \<times> int \<times> int \<times> 'w) option" where
  "Execute c startState filteringCost0 stepsTaken0 timeToStop0 constructionMode w =
     (case Execute_while c constructionMode 0 0.001 startState startState w of
        None \<Rightarrow> None
      | Some (Inl e) \<Rightarrow> Some (Inl e)
      | Some (Inr (status, k, cost, internalState, w')) \<Rightarrow>
          (if status
           then (let stabilizationFilteringCost = 0; stepsToStabilize = 0
                 in Some (Inr (True, internalState, cost + stabilizationFilteringCost,
                               sint k + stepsToStabilize, sint k, w')))
           else Some (Inr (False, internalState, filteringCost0, stepsTaken0, timeToStop0, w'))))"

subsection \<open>executeOneStep (lines 371-430)\<close>

text \<open>An \<^verbatim>\<open>int\<close> passed where a \<^verbatim>\<open>size_t\<close> is expected.\<close>

definition size_t_of_int :: "int \<Rightarrow> nat" where
  "size_t_of_int k = nat (k mod 2 ^ 64)"

text \<open>
  The result is (return value, \<^verbatim>\<open>endState\<close>, \<^verbatim>\<open>filteringCost\<close>, world);
  \<^verbatim>\<open>filteringCost\<close> is assigned on the successful return only.
\<close>

definition executeOneStep ::
  "'w Controller \<Rightarrow> int \<Rightarrow> belief \<Rightarrow> real \<Rightarrow> bool \<Rightarrow> 'w
   \<Rightarrow> failure + bool \<times> belief \<times> real \<times> 'w" where
  "executeOneStep c k startState filteringCost0 constructionMode w =
     (let cost = 0.001;
          ev = Evolve c startState (size_t_of_int k) w;
          endState = fst ev;
          w' = snd ev
      in if constructionMode \<and> \<not> checkTrueStateValidity (si c) w'
         then Inr (False, endState, filteringCost0, w')
         else (case nominalX c (size_t_of_int k) of
                 Inl e \<Rightarrow> Inl e
               | Inr nominalX_K \<Rightarrow>
                   if deviates c nominalX_K endState \<or> \<not> checkTrueStateValidity (si c) w'
                   then Inr (False, endState, filteringCost0, w')
                   else Inr (True, endState, cost + trace (covariance endState), w')))"

subsection \<open>executeUpto (lines 433-476)\<close>

text \<open>
  The loop of \<^verbatim>\<open>executeUpto\<close>; the result is (return value, \<open>k\<close>, \<^verbatim>\<open>endState\<close>,
  \<^verbatim>\<open>filteringCost\<close>, world).
\<close>

function executeUpto_while ::
  "'w Controller \<Rightarrow> int \<Rightarrow> int \<Rightarrow> belief \<Rightarrow> belief \<Rightarrow> real \<Rightarrow> bool \<Rightarrow> 'w
   \<Rightarrow> failure + bool \<times> int \<times> belief \<times> real \<times> 'w" where
  "executeUpto_while c numSteps k tempState endState filteringCost constructionMode w =
     (if k < numSteps then
        (case executeOneStep c k tempState filteringCost constructionMode w of
           Inl err \<Rightarrow> Inl err
         | Inr (e, tempEndState, filteringCost', w') \<Rightarrow>
             if \<not> e then Inr (False, k + 1, tempEndState, filteringCost', w')
             else executeUpto_while c numSteps (k + 1) tempEndState tempEndState filteringCost'
                    constructionMode w')
      else Inr (True, k, endState, filteringCost, w))"
  by pat_completeness auto
termination
  by (relation "measure (\<lambda>(c, numSteps, k, tempState, endState, filteringCost, constructionMode, w).
        nat (numSteps - k))") auto

declare executeUpto_while.simps [simp del]

text \<open>
  \<^verbatim>\<open>executeUpto\<close>: the result is (return value, \<^verbatim>\<open>endState\<close>, \<^verbatim>\<open>filteringCost\<close>,
  \<^verbatim>\<open>stepsTaken\<close>, world); \<^verbatim>\<open>stepsTaken\<close> is written on the successful return only.
\<close>

definition executeUpto ::
  "'w Controller \<Rightarrow> int \<Rightarrow> belief \<Rightarrow> belief \<Rightarrow> real \<Rightarrow> int \<Rightarrow> bool \<Rightarrow> 'w
   \<Rightarrow> failure + bool \<times> belief \<times> real \<times> int \<times> 'w" where
  "executeUpto c numSteps startState endState0 filteringCost0 stepsTaken0 constructionMode w =
     (case executeUpto_while c numSteps 0 startState endState0 filteringCost0 constructionMode w of
        Inl err \<Rightarrow> Inl err
      | Inr (status, k, endState, filteringCost, w') \<Rightarrow>
          Inr (status, endState, filteringCost, (if status then k else stepsTaken0), w'))"

subsection \<open>A small controller to run the definitions on\<close>

text \<open>
  A robot on a line. The world is the validity of the hidden true state; the filter
  moves the belief mean one unit towards the origin and keeps the covariance, whose
  trace is 1. The goal is the origin, reached within distance 1/2; the nominal
  trajectory has the given states.
\<close>

definition lineSI :: "bool SpaceInformation" where
  "lineSI = \<lparr> applyControl = (\<lambda>u w. w), getObservation = (\<lambda>w. []),
              checkTrueStateValidity = (\<lambda>w. w), setBelief = (\<lambda>b w. w), getZeroControl = [] \<rparr>"

definition lineBelief :: "real \<Rightarrow> belief" where
  "lineBelief x = \<lparr> X = x, Y = 0, Yaw = 0, covariance = [[1/2, 0, 0], [0, 1/4, 0], [0, 0, 1/4]] \<rparr>"

definition lineController :: "belief list \<Rightarrow> bool Controller" where
  "lineController nominalXs =
     mkController lineSI (lineBelief 0) nominalXs (map (\<lambda>x. []) nominalXs)
       (\<lambda>b t. []) (\<lambda>b u z cur nxt. b\<lparr>X := X b - 1\<rparr>) (1/2) 100"

section \<open>FIRMCP.cpp: the POMCP search on the belief graph\<close>

subsection \<open>Vertices, statistics, parameters\<close>

type_synonym Vertex = nat
type_synonym Edge = "Vertex \<times> Vertex"

text \<open>
  Modelled from the spec: the POMCP statistics that \<^verbatim>\<open>FIRM::StateType\<close> keeps on a
  belief vertex (the class is declared elsewhere in the repository): the visit count
  \<open>N(h)\<close>, the value \<open>J(h)\<close>, the flag \<^verbatim>\<open>childQexpanded\<close>, the list of child
  actions, and per child action \<open>q\<close> the counts \<open>N(h,q)\<close> and \<open>M(h,q)\<close>, the
  cost-to-go \<open>Q(h,q)\<close> and the observation child \<^verbatim>\<open>childQVnode(q)\<close>. The accessors
  below read and write one entry each, as the comments at their call sites say
  (\<^verbatim>\<open>N(h) += 1\<close>, \<^verbatim>\<open>N(ha) += 1\<close>, \<^verbatim>\<open>M(ha) += 1\<close>).
\<close>

record StateType = belief +
  thisQVvisit :: nat
  thisQVmincosttogo :: real
  childQexpanded :: bool
  childQnodes :: "Vertex list"
  childQvisits :: "Vertex \<Rightarrow> nat"
  childQmisses :: "Vertex \<Rightarrow> nat"
  childQcosttogoes :: "Vertex \<Rightarrow> real"
  childQVnodes :: "Vertex \<Rightarrow> Vertex"

definition addThisQVvisit :: "StateType \<Rightarrow> StateType" where
  "addThisQVvisit b = b\<lparr>thisQVvisit := thisQVvisit b + 1\<rparr>"

definition addChildQvisit :: "Vertex \<Rightarrow> StateType \<Rightarrow> StateType" where
  "addChildQvisit q b = b\<lparr>childQvisits := (childQvisits b)(q := childQvisits b q + 1)\<rparr>"

definition addChildQmiss :: "Vertex \<Rightarrow> StateType \<Rightarrow> StateType" where
  "addChildQmiss q b = b\<lparr>childQmisses := (childQmisses b)(q := childQmisses b q + 1)\<rparr>"

definition getThisQVvisit :: "StateType \<Rightarrow> real" where
  "getThisQVvisit b = real (thisQVvisit b)"

definition getChildQvisit :: "StateType \<Rightarrow> Vertex \<Rightarrow> real" where
  "getChildQvisit b q = real (childQvisits b q)"

definition getChildQmiss :: "StateType \<Rightarrow> Vertex \<Rightarrow> real" where
  "getChildQmiss b q = real (childQmisses b q)"

definition getChildQcosttogo :: "StateType \<Rightarrow> Vertex \<Rightarrow> real" where
  "getChildQcosttogo b q = childQcosttogoes b q"

definition setChildQcosttogo :: "Vertex \<Rightarrow> real \<Rightarrow> StateType \<Rightarrow> StateType" where
  "setChildQcosttogo q v b = b\<lparr>childQcosttogoes := (childQcosttogoes b)(q := v)\<rparr>"

definition getThisQVmincosttogo :: "StateType \<Rightarrow> real" where
  "getThisQVmincosttogo b = thisQVmincosttogo b"

definition setThisQVmincosttogo :: "real \<Rightarrow> StateType \<Rightarrow> StateType" where
  "setThisQVmincosttogo v b = b\<lparr>thisQVmincosttogo := v\<rparr>"

definition getChildQVnode :: "StateType \<Rightarrow> Vertex \<Rightarrow> Vertex" where
  "getChildQVnode b q = childQVnodes b q"

text \<open>
  The members of the planner that the functions below read. Their values come from the
  configuration file or from other headers of the repository, so they are parameters.
\<close>

record FIRMCP =
  numPOMCPParticles :: int
  maxPOMCPDepth :: int
  maxFIRMReachDepth :: int
  cExplorationForSimulate :: real
  cExploitationForRolloutOutOfReach :: real
  cExploitationForRolloutWithinReach :: real
  costToGoRegulatorOutOfReach :: real
  costToGoRegulatorWithinReach :: real
  obstacleCostToGo :: real
  infiniteCostToGo :: real
  INVALID_VERTEX_ID :: Vertex
  startM0 :: Vertex

subsection \<open>Choosing a child action of minimum cost\<close>

text \<open>
  The loop shared by \<^verbatim>\<open>generatePOMCPPolicy\<close> (lines 853-880) and \<^verbatim>\<open>pomcpSimulate\<close>
  (lines 1052-1086): it keeps the least cost seen so far, starting from
  \<^verbatim>\<open>infiniteCostToGo_\<close>, and the child actions that attain it.
\<close>

definition minQcosttogoStep :: "(Vertex \<Rightarrow> real) \<Rightarrow> Vertex \<Rightarrow> real \<times> Vertex list \<Rightarrow> real \<times> Vertex list" where
  "minQcosttogoStep cost childQnode acc =
     (let minQcosttogo = fst acc; minQcosttogoNodes = snd acc; childQcosttogo = cost childQnode in
      if minQcosttogo \<ge> childQcosttogo then
        (childQcosttogo,
         (if minQcosttogo > childQcosttogo then [] else minQcosttogoNodes) @ [childQnode])
      else (minQcosttogo, minQcosttogoNodes))"

definition minQcosttogoLoop :: "real \<Rightarrow> (Vertex \<Rightarrow> real) \<Rightarrow> Vertex list \<Rightarrow> real \<times> Vertex list" where
  "minQcosttogoLoop infiniteCost cost nodes = fold (minQcosttogoStep cost) nodes (infiniteCost, [])"

text \<open>
  Breaking the tie (lines 881-891 and 1087-1096): a single candidate is taken as it is,
  otherwise \<^verbatim>\<open>rand() % size\<close> indexes the candidates; \<open>random\<close> is the value that
  \<^verbatim>\<open>rand()\<close> returns. With no candidate the \<^verbatim>\<open>assert\<close> fails: \<open>None\<close>.
\<close>

definition breakTie :: "Vertex list \<Rightarrow> nat \<Rightarrow> Vertex option" where
  "breakTie minQcosttogoNodes random =
     (if length minQcosttogoNodes = 1 then Some (minQcosttogoNodes ! 0)
      else if length minQcosttogoNodes = 0 then None
      else Some (minQcosttogoNodes ! (random mod length minQcosttogoNodes)))"

subsection \<open>pomcpSimulate: action selection below the horizon (lines 1051-1104)\<close>

text \<open>The cost-to-go of a child action less its exploration bonus (line 1070).\<close>

definition ucbCosttogo :: "FIRMCP \<Rightarrow> StateType \<Rightarrow> Vertex \<Rightarrow> real" where
  "ucbCosttogo P currentBelief childQnode =
     (let childQcosttogo = getChildQcosttogo currentBelief childQnode;
          thisQVvisit = getThisQVvisit currentBelief;
          childQvisit = getChildQvisit currentBelief childQnode
      in childQcosttogo
           - cExplorationForSimulate P * sqrt (ln (thisQVvisit + 1.0) / (childQvisit + 1 / 10 ^ 10)))"

definition pomcpSimulate_selectAction :: "FIRMCP \<Rightarrow> StateType \<Rightarrow> nat \<Rightarrow> Vertex option" where
  "pomcpSimulate_selectAction P currentBelief random =
     breakTie (snd (minQcosttogoLoop (infiniteCostToGo P) (ucbCosttogo P currentBelief)
                      (childQnodes currentBelief))) random"

subsection \<open>Backups\<close>

text \<open>
  The backup at or beyond the depth horizon (lines 985-991, 1009-1013, 1026-1032 and
  their copies in \<^verbatim>\<open>pomcpRollout\<close>): the visit count goes up and \<open>J(h)\<close> is set to the
  cost that is returned.
\<close>

definition horizonBackup :: "real \<Rightarrow> StateType \<Rightarrow> StateType" where
  "horizonBackup totalCostToGo currentBelief =
     setThisQVmincosttogo totalCostToGo (addThisQVvisit currentBelief)"

text \<open>
  What \<^verbatim>\<open>pomcpSimulate\<close> does with an expanded vertex before it executes an action
  (lines 963-1106): at \<^verbatim>\<open>currentDepth >= maxPOMCPDepth_\<close> it either returns a cost,
  after a horizon backup, or goes on with the target of the previous edge as the action;
  below that depth it selects an action. \<open>isReached\<close> tells whether the target's
  belief is reached from the current one, \<open>approxCostToGo\<close> is
  \<^verbatim>\<open>getCostToGoWithApproxStabCost(targetVertex) + computeApproxEdgeCost(..)\<close>.
\<close>

datatype horizonStep = Return real StateType | Proceed Vertex | SelectAction

definition pomcpSimulate_horizon ::
  "FIRMCP \<Rightarrow> int \<Rightarrow> Vertex \<Rightarrow> bool \<Rightarrow> real \<Rightarrow> StateType \<Rightarrow> horizonStep" where
  "pomcpSimulate_horizon P currentDepth targetVertex isReached approxCostToGo currentBelief =
     (if currentDepth \<ge> maxPOMCPDepth P then
        (if currentDepth \<ge> maxFIRMReachDepth P
         then Return (obstacleCostToGo P) (horizonBackup (obstacleCostToGo P) currentBelief)
         else if isReached
         then Return approxCostToGo (horizonBackup approxCostToGo currentBelief)
         else if targetVertex \<notin> set (childQnodes currentBelief)
         then Return (obstacleCostToGo P) (horizonBackup (obstacleCostToGo P) currentBelief)
         else Proceed targetVertex)
      else SelectAction)"

text \<open>
  The loop that recomputes \<open>J(h)\<close> (lines 1344-1355 and 1908-1919): it starts from the
  updated \<open>Q(h,q)\<close> and reads the stored cost-to-go of every child action.
\<close>

definition thisQVmincosttogoLoop :: "StateType \<Rightarrow> real \<Rightarrow> real" where
  "thisQVmincosttogoLoop currentBelief start =
     fold (\<lambda>childQnode thisQVmincosttogoUpdated.
             if thisQVmincosttogoUpdated > getChildQcosttogo currentBelief childQnode
             then getChildQcosttogo currentBelief childQnode
             else thisQVmincosttogoUpdated)
          (childQnodes currentBelief) start"

text \<open>
  The backup after the recursive call in \<^verbatim>\<open>pomcpRollout\<close> (lines 1679-1694 for the
  cost of a failed execution, 1790-1795 for the child's value, 1819-1942 for the update).
  \<open>executionStatus\<close> and \<open>executionCost\<close> are what \<^verbatim>\<open>executeSimulationFromUpto\<close>
  gave, \<open>childValue\<close> is what the recursive call returns when it is made. The result is
  the updated vertex and the returned cost-to-go.
\<close>

definition pomcpRollout_backup ::
  "FIRMCP \<Rightarrow> bool \<Rightarrow> Vertex \<Rightarrow> bool \<Rightarrow> real \<Rightarrow> real \<Rightarrow> StateType \<Rightarrow> StateType \<times> real" where
  "pomcpRollout_backup P isNewNodeExpanded selectedChildQnode executionStatus executionCost0
       childValue currentBelief0 =
     (let executionCost = (if \<not> executionStatus then obstacleCostToGo P else executionCost0);
          selectedChildQVmincosttogo = (if executionStatus then childValue else 0.0);
          currentBelief1 = addThisQVvisit currentBelief0;
          currentBelief2 = addChildQvisit selectedChildQnode currentBelief1;
          currentBelief = (if \<not> executionStatus then addChildQmiss selectedChildQnode currentBelief2
                           else currentBelief2);
          selectedChildQvisit = getChildQvisit currentBelief selectedChildQnode;
          selectedChildQcosttogo0 = getChildQcosttogo currentBelief selectedChildQnode;
          thisQVmincosttogo = getThisQVmincosttogo currentBelief;
          selectedChildQcosttogoUpdated0 =
            (if executionStatus then executionCost + selectedChildQVmincosttogo
             else executionCost + obstacleCostToGo P);
          selectedChildQcosttogo = (if isNewNodeExpanded then 0.0 else selectedChildQcosttogo0);
          selectedChildQcosttogoUpdated =
            selectedChildQcosttogo
              + (selectedChildQcosttogoUpdated0 - selectedChildQcosttogo) / selectedChildQvisit;
          thisQVmincosttogoUpdated =
            (if selectedChildQcosttogoUpdated < thisQVmincosttogo then selectedChildQcosttogoUpdated
             else thisQVmincosttogoLoop currentBelief selectedChildQcosttogoUpdated)
      in (setThisQVmincosttogo thisQVmincosttogoUpdated
            (setChildQcosttogo selectedChildQnode selectedChildQcosttogoUpdated currentBelief),
          thisQVmincosttogoUpdated))"

text \<open>
  The same block of \<^verbatim>\<open>pomcpSimulate\<close> (lines 1118-1133, 1228-1233, 1256-1376). Its
  \<^verbatim>\<open>isNewNodeExpanded\<close> is a local variable that is \<^verbatim>\<open>false\<close> wherever this block
  is reached: the branch that sets it returns the rollout's value at once.
\<close>

definition pomcpSimulate_backup ::
  "FIRMCP \<Rightarrow> Vertex \<Rightarrow> bool \<Rightarrow> real \<Rightarrow> real \<Rightarrow> StateType \<Rightarrow> StateType \<times> real" where
  "pomcpSimulate_backup P selectedChildQnode executionStatus executionCost0 childValue currentBelief0 =
     (let isNewNodeExpanded = False;
          executionCost = (if \<not> executionStatus then obstacleCostToGo P else executionCost0);
          selectedChildQVmincosttogo = (if executionStatus then childValue else 0.0);
          currentBelief1 = addThisQVvisit currentBelief0;
          currentBelief2 = addChildQvisit selectedChildQnode currentBelief1;
          currentBelief = (if \<not> executionStatus then addChildQmiss selectedChildQnode currentBelief2
                           else currentBelief2);
          selectedChildQvisit = getChildQvisit currentBelief selectedChildQnode;
          selectedChildQcosttogo0 = getChildQcosttogo currentBelief selectedChildQnode;
          thisQVmincosttogo = getThisQVmincosttogo currentBelief;
          selectedChildQcosttogoUpdated0 =
            (if executionStatus then executionCost + selectedChildQVmincosttogo
             else executionCost + obstacleCostToGo P);
          selectedChildQcosttogo = (if isNewNodeExpanded then 0.0 else selectedChildQcosttogo0);
          selectedChildQcosttogoUpdated =
            selectedChildQcosttogo
              + (selectedChildQcosttogoUpdated0 - selectedChildQcosttogo) / selectedChildQvisit;
          thisQVmincosttogoUpdated =
            (if selectedChildQcosttogoUpdated < thisQVmincosttogo then selectedChildQcosttogoUpdated
             else thisQVmincosttogoLoop currentBelief selectedChildQcosttogoUpdated)
      in (setThisQVmincosttogo thisQVmincosttogoUpdated
            (setChildQcosttogo selectedChildQnode selectedChildQcosttogoUpdated currentBelief),
          thisQVmincosttogoUpdated))"

text \<open>
  The backup rule in the words of the specification (section 4.6.2), for comparison with
  the code: \<open>N(h) += 1\<close>; \<open>N(h,q) += 1\<close>; if not ok, \<open>M(h,q) += 1\<close>;
  \<open>Q_k = cStep + (J_child if ok else J_obs)\<close>, where \<open>cStep\<close> is \<open>J_obs\<close> after a
  failed execution; \<open>Q(h,q)\<close> is reset to 0 first at a vertex just expanded; then
  \<open>Q(h,q) \<leftarrow> Q(h,q) + (Q_k - Q(h,q)) / N(h,q)\<close>.
\<close>

definition backupRule_N :: "StateType \<Rightarrow> nat" where
  "backupRule_N b = thisQVvisit b + 1"

definition backupRule_Nq :: "Vertex \<Rightarrow> StateType \<Rightarrow> Vertex \<Rightarrow> nat" where
  "backupRule_Nq q b = (childQvisits b)(q := childQvisits b q + 1)"

definition backupRule_Mq :: "Vertex \<Rightarrow> bool \<Rightarrow> StateType \<Rightarrow> Vertex \<Rightarrow> nat" where
  "backupRule_Mq q ok b = (if ok then childQmisses b else (childQmisses b)(q := childQmisses b q + 1))"

definition backupRule_Qq :: "real \<Rightarrow> bool \<Rightarrow> Vertex \<Rightarrow> bool \<Rightarrow> real \<Rightarrow> real \<Rightarrow> StateType \<Rightarrow> Vertex \<Rightarrow> real" where
  "backupRule_Qq J_obs justExpanded q ok cStep0 J_child b =
     (let cStep = (if ok then cStep0 else J_obs);
          Q_k = cStep + (if ok then J_child else J_obs);
          Q = (if justExpanded then 0 else childQcosttogoes b q);
          N = real (childQvisits b q + 1)
      in (childQcosttogoes b)(q := Q + (Q_k - Q) / N))"

subsection \<open>pomcpRollout: importance sampling of the action (lines 1566-1663)\<close>

text \<open>
  The flag of lines 1575-1581. \<open>reached q\<close> stands for
  \<^verbatim>\<open>stateProperty_[q]->isReachedWithinNEps(currentBelief, nEpsForIsReached_)\<close>. The
  body of the loop ends with an unconditional \<^verbatim>\<open>break\<close>.
\<close>

definition rolloutReachedFlag :: "(Vertex \<Rightarrow> bool) \<Rightarrow> Vertex list \<Rightarrow> bool" where
  "rolloutReachedFlag reached nodes =
     (case nodes of [] \<Rightarrow> False | childQnode # rest \<Rightarrow> reached childQnode)"

text \<open>
  The weight of one child action (lines 1597-1617); \<open>pow\<close> is \<^verbatim>\<open>std::pow\<close>. The
  costs are reals here: a zero denominator, which gives an infinite double in the code,
  is outside of what this definition describes.
\<close>

definition rolloutWeight :: "FIRMCP \<Rightarrow> (real \<Rightarrow> real \<Rightarrow> real) \<Rightarrow> bool \<Rightarrow> real \<Rightarrow> real" where
  "rolloutWeight P pow isReachedWithinNEps costtogo =
     (if isReachedWithinNEps
      then 1.0 / (pow costtogo (cExploitationForRolloutWithinReach P) + costToGoRegulatorWithinReach P)
      else 1.0 / (pow costtogo (cExploitationForRolloutOutOfReach P) + costToGoRegulatorOutOfReach P))"

text \<open>The weights of all child actions, in the order of the list.\<close>

definition rolloutWeights ::
  "FIRMCP \<Rightarrow> (real \<Rightarrow> real \<Rightarrow> real) \<Rightarrow> (Vertex \<Rightarrow> bool) \<Rightarrow> StateType \<Rightarrow> real list" where
  "rolloutWeights P pow reached currentBelief =
     (let isReachedWithinNEps = rolloutReachedFlag reached (childQnodes currentBelief) in
      map (\<lambda>childQnode. rolloutWeight P pow isReachedWithinNEps
                            (getChildQcosttogo currentBelief childQnode))
          (childQnodes currentBelief))"

text \<open>The running sums \<^verbatim>\<open>weightSections\<close> and the total (lines 1620-1621).\<close>

definition weightSections :: "real list \<Rightarrow> real list \<times> real" where
  "weightSections weights =
     fold (\<lambda>weight acc. (fst acc @ [snd acc + weight], snd acc + weight)) weights ([], 0.0)"

text \<open>The search for the section that holds the picked number (lines 1643-1651).\<close>

fun findSection :: "real \<Rightarrow> real list \<Rightarrow> nat \<Rightarrow> nat option" where
  "findSection weightPicked [] j = None"
| "findSection weightPicked (section # rest) j =
     (if weightPicked < section then Some j else findSection weightPicked rest (j + 1))"

text \<open>
  The selection: \<open>weightPicked\<close> is the number drawn by \<^verbatim>\<open>arma::randu\<close>. When no
  section holds it, \<^verbatim>\<open>jSelected\<close> is read uninitialised.
\<close>

definition pomcpRollout_selectAction ::
  "FIRMCP \<Rightarrow> (real \<Rightarrow> real \<Rightarrow> real) \<Rightarrow> (Vertex \<Rightarrow> bool) \<Rightarrow> StateType \<Rightarrow> real \<Rightarrow> failure + Vertex" where
  "pomcpRollout_selectAction P pow reached currentBelief weightPicked =
     (let ws = weightSections (rolloutWeights P pow reached currentBelief);
          weightSum = snd ws;
          normalized = map (\<lambda>weight. weight / weightSum) (fst ws)
      in case findSection weightPicked normalized 0 of
           None \<Rightarrow> Inl Uninitialized
         | Some jSelected \<Rightarrow> Inr (childQnodes currentBelief ! jSelected))"

subsection \<open>The belief graph\<close>

text \<open>
  The parts of the planner's graph that the functions below touch: the state of each
  vertex, the edges of \<^verbatim>\<open>g_\<close>, the keys of \<^verbatim>\<open>edgeControllers_\<close>, and the vertices
  whose state has been freed.
\<close>

record Graph =
  stateProperty :: "Vertex \<Rightarrow> StateType"
  edges :: "Edge list"
  edgeControllers :: "Edge list"
  freedStates :: "Vertex list"

text \<open>\<^verbatim>\<open>boost::edge(u, v, g_)\<close>: the descriptor and whether the edge exists.\<close>

definition boost_edge :: "Graph \<Rightarrow> Vertex \<Rightarrow> Vertex \<Rightarrow> Edge \<times> bool" where
  "boost_edge g u v = ((u, v), (u, v) \<in> set (edges g))"

subsection \<open>generatePOMCPPolicy (lines 785-918)\<close>

text \<open>
  The simulator's hidden true state lives in the world \<open>'w\<close>. Sampling a true state may
  fail. \<^verbatim>\<open>pomcpSimulate\<close> is a parameter here: the particle loop only sequences its
  calls, each of which may change the graph and the world.
\<close>

record ('t, 'w) Simulator =
  getTrueState :: "'w \<Rightarrow> 't"
  setTrueState :: "'t \<Rightarrow> 'w \<Rightarrow> 'w"
  sampleTrueStateFromBelief :: "StateType \<Rightarrow> real \<Rightarrow> 'w \<Rightarrow> 't option \<times> 'w"
  pomcpSimulate :: "Vertex \<Rightarrow> int \<Rightarrow> Graph \<times> 'w \<Rightarrow> real \<times> Graph \<times> 'w"

text \<open>One iteration of the particle loop (lines 813-850).\<close>

definition particleStep :: "('t, 'w) Simulator \<Rightarrow> Vertex \<Rightarrow> Graph \<times> 'w \<Rightarrow> Graph \<times> 'w" where
  "particleStep S currentVertex gw =
     (let nsigma = 3.0;
          sampled = sampleTrueStateFromBelief S (stateProperty (fst gw) currentVertex) nsigma (snd gw)
      in case fst sampled of
           None \<Rightarrow> (fst gw, snd sampled)
         | Some sampState \<Rightarrow>
             (let w1 = setTrueState S sampState (snd sampled);
                  currentDepth = 0
              in snd (pomcpSimulate S currentVertex currentDepth (fst gw, w1))))"

text \<open>
  The loop counter is an \<^verbatim>\<open>unsigned int\<close> compared with the \<^verbatim>\<open>int\<close> member
  \<^verbatim>\<open>numPOMCPParticles_\<close>, which is converted to \<^verbatim>\<open>unsigned int\<close> for the comparison.
\<close>

definition particleCount :: "FIRMCP \<Rightarrow> nat" where
  "particleCount P = nat (numPOMCPParticles P mod 2 ^ 32)"

text \<open>
  The result is the selected edge (or the failed assertion), the graph and the world.
  \<open>random\<close> is the value of \<^verbatim>\<open>rand()\<close> where it is called.
\<close>

definition generatePOMCPPolicy ::
  "('t, 'w) Simulator \<Rightarrow> FIRMCP \<Rightarrow> Vertex \<Rightarrow> Vertex \<Rightarrow> nat \<Rightarrow> Graph \<times> 'w
   \<Rightarrow> (failure + Edge) \<times> Graph \<times> 'w" where
  "generatePOMCPPolicy S P currentVertex goalVertex random gw0 =
     (let tempTrueStateCopy = getTrueState S (snd gw0);
          gw = (particleStep S currentVertex ^^ particleCount P) gw0;
          currentBelief = stateProperty (fst gw) currentVertex;
          minQcosttogoNodes =
            snd (minQcosttogoLoop (infiniteCostToGo P) (getChildQcosttogo currentBelief)
                   (childQnodes currentBelief))
      in case breakTie minQcosttogoNodes random of
           None \<Rightarrow> (Inl AssertionFailed, gw)
         | Some selectedChildQnode \<Rightarrow>
             (let selectedEdge = fst (boost_edge (fst gw) currentVertex selectedChildQnode)
              in (Inr selectedEdge, fst gw, setTrueState S tempTrueStateCopy (snd gw))))"

subsection \<open>Pruning (lines 2573-2626)\<close>

text \<open>
  \<^verbatim>\<open>prunePOMCPNode\<close>: unless the vertex is the start vertex, the controllers of its
  out-edges are freed and erased, its state is freed, and \<^verbatim>\<open>boost::clear_vertex\<close>
  removes every edge from or to it.
\<close>

definition out_edges :: "Graph \<Rightarrow> Vertex \<Rightarrow> Edge list" where
  "out_edges g v = filter (\<lambda>e. fst e = v) (edges g)"

definition clear_vertex :: "Vertex \<Rightarrow> Graph \<Rightarrow> Graph" where
  "clear_vertex v g = g\<lparr>edges := filter (\<lambda>e. fst e \<noteq> v \<and> snd e \<noteq> v) (edges g)\<rparr>"

definition prunePOMCPNode :: "FIRMCP \<Rightarrow> Vertex \<Rightarrow> Graph \<Rightarrow> Graph" where
  "prunePOMCPNode P rootVertex g =
     (if rootVertex \<noteq> startM0 P then
        (let g1 = g\<lparr>edgeControllers :=
                      filter (\<lambda>e. e \<notin> set (out_edges g rootVertex)) (edgeControllers g)\<rparr>;
             g2 = g1\<lparr>freedStates := rootVertex # freedStates g1\<rparr>
         in clear_vertex rootVertex g2)
      else g)"

text \<open>
  A loop over a list whose body may fail or not return: it stops at the first such
  iteration.
\<close>

fun forEach :: "('a \<Rightarrow> 's \<Rightarrow> (failure + 's) option) \<Rightarrow> 'a list \<Rightarrow> 's \<Rightarrow> (failure + 's) option" where
  "forEach body [] s = Some (Inr s)"
| "forEach body (x # xs) s =
     (case body x s of
        None \<Rightarrow> None
      | Some (Inl e) \<Rightarrow> Some (Inl e)
      | Some (Inr s') \<Rightarrow> forEach body xs s')"

text \<open>
  \<^verbatim>\<open>prunePOMCPTreeFrom\<close> recurses along the observation children. The recursion need
  not end (the children may lead back to the vertex), so the model carries fuel: the
  first argument bounds the depth of the recursion and \<open>None\<close> is "out of fuel". The
  function reads the state of its vertex before the loop and its child list during the
  loop, and frees the state after it; a state already freed at either point is a
  failure.
\<close>

fun prunePOMCPTreeFrom :: "nat \<Rightarrow> FIRMCP \<Rightarrow> Vertex \<Rightarrow> Graph \<Rightarrow> (failure + Graph) option" where
  "prunePOMCPTreeFrom 0 P rootVertex g = None"
| "prunePOMCPTreeFrom (Suc fuel) P rootVertex g =
     (if rootVertex \<in> set (freedStates g) then Some (Inl UseAfterFree)
      else
        (let rootState = stateProperty g rootVertex;
             children =
               (if childQexpanded rootState then
                  forEach (\<lambda>childQnode g'.
                             let childQVnode = getChildQVnode rootState childQnode in
                             if childQVnode \<noteq> INVALID_VERTEX_ID P
                             then prunePOMCPTreeFrom fuel P childQVnode g'
                             else Some (Inr g'))
                          (childQnodes rootState) g
                else Some (Inr g))
         in case children of
              None \<Rightarrow> None
            | Some (Inl e) \<Rightarrow> Some (Inl e)
            | Some (Inr g') \<Rightarrow>
                if rootVertex \<in> set (freedStates g') then Some (Inl UseAfterFree)
                else Some (Inr (prunePOMCPNode P rootVertex g'))))"

text \<open>
  For stating what pruning does: the vertices whose state was freed between two graphs,
  and the relation between a graph and what pruning makes of it. The states stay as
  they are, the start vertex is not among the freed vertices, exactly the edges from or
  to a freed vertex are gone, controllers are only erased, and only for edges out of a
  freed vertex; for an edge out of a freed vertex to a vertex that is not freed the
  controller is erased.
\<close>

definition pruned :: "Graph \<Rightarrow> Graph \<Rightarrow> Vertex set" where
  "pruned g g' = set (freedStates g') - set (freedStates g)"

definition pruneRel :: "FIRMCP \<Rightarrow> Graph \<Rightarrow> Graph \<Rightarrow> bool" where
  "pruneRel P g g' \<longleftrightarrow>
     stateProperty g' = stateProperty g
     \<and> startM0 P \<notin> pruned g g'
     \<and> set (freedStates g) \<subseteq> set (freedStates g')
     \<and> edges g' = filter (\<lambda>e. fst e \<notin> pruned g g' \<and> snd e \<notin> pruned g g') (edges g)
     \<and> set (edgeControllers g') \<subseteq> set (edgeControllers g)
     \<and> (\<forall>e\<in>set (edgeControllers g). fst e \<notin> pruned g g' \<longrightarrow> e \<in> set (edgeControllers g'))
     \<and> (\<forall>e\<in>set (edgeControllers g'). e \<in> set (edges g) \<longrightarrow> fst e \<in> pruned g g'
            \<longrightarrow> snd e \<in> pruned g g')"

subsection \<open>A vertex to run the definitions on\<close>

text \<open>
  An expanded vertex with child actions 1 and 2, \<open>Q(h,1) = 1\<close>, \<open>Q(h,2) = 5\<close>,
  \<open>J(h) = 1\<close>, one earlier visit through action 1; and planner parameters with
  \<open>J_obs = 1000\<close>.
\<close>

definition exampleVertex :: StateType where
  "exampleVertex =
     \<lparr> X = 0, Y = 0, Yaw = 0, covariance = [[1, 0, 0], [0, 1, 0], [0, 0, 1]],
       thisQVvisit = 1, thisQVmincosttogo = 1, childQexpanded = True, childQnodes = [1, 2],
       childQvisits = (\<lambda>q. if q = 1 then 1 else 0), childQmisses = (\<lambda>q. 0),
       childQcosttogoes = (\<lambda>q. if q = 1 then 1 else if q = 2 then 5 else 0),
       childQVnodes = (\<lambda>q. 99) \<rparr>"

definition examplePlanner :: FIRMCP where
  "examplePlanner =
     \<lparr> numPOMCPParticles = 0, maxPOMCPDepth = 2, maxFIRMReachDepth = 4,
       cExplorationForSimulate = 1, cExploitationForRolloutOutOfReach = 2,
       cExploitationForRolloutWithinReach = 1, costToGoRegulatorOutOfReach = 1,
       costToGoRegulatorWithinReach = 10, obstacleCostToGo = 1000, infiniteCostToGo = 1000000,
       INVALID_VERTEX_ID = 99, startM0 = 0 \<rparr>"

text \<open>
  A graph around the example vertex: the start vertex 0, the roadmap vertices 1 and 2,
  and a search tree with root 10, whose observation children under the actions 1 and 2
  are 11 and 12; 11 is expanded and has the leaf 13 under action 1. The tree vertices
  have edges to roadmap vertices, among them the start vertex.
\<close>

definition treeVertex :: "bool \<Rightarrow> (Vertex \<Rightarrow> Vertex) \<Rightarrow> StateType" where
  "treeVertex expanded children =
     exampleVertex\<lparr>childQexpanded := expanded, childQVnodes := children\<rparr>"

definition exampleGraph :: Graph where
  "exampleGraph =
     \<lparr> stateProperty =
         (\<lambda>v. if v = 10 then treeVertex True (\<lambda>q. if q = 1 then 11 else if q = 2 then 12 else 99)
              else if v = 11 then treeVertex True (\<lambda>q. if q = 1 then 13 else 99)
              else treeVertex False (\<lambda>q. 99)),
       edges = [(0, 1), (0, 2), (10, 1), (10, 2), (11, 0), (11, 1), (12, 2), (13, 1)],
       edgeControllers = [(0, 1), (0, 2), (10, 1), (10, 2), (11, 0), (11, 1), (12, 2), (13, 1)],
       freedStates = [] \<rparr>"

text \<open>A simulator whose true state is a number and whose simulation visits the vertex.\<close>

definition exampleSimulator :: "(nat, nat) Simulator" where
  "exampleSimulator =
     \<lparr> getTrueState = (\<lambda>w. w),
       setTrueState = (\<lambda>t w. t),
       sampleTrueStateFromBelief = (\<lambda>b nsigma w. (Some (w + 1), w)),
       pomcpSimulate = (\<lambda>v d gw.
          (0, (fst gw)\<lparr>stateProperty := (stateProperty (fst gw))(v := addThisQVvisit (stateProperty (fst gw) v))\<rparr>,
           snd gw)) \<rparr>"

section \<open>Properties of the controller\<close>

lemma lin_beyond:
  "Length c = 0 \<or> t \<ge> Length c \<Longrightarrow>
   Evolve_linearizations c t z =
     (LinearSystem (goal c) (getZeroControl (si c)) (Some z), LinearSystem (goal c) (getZeroControl (si c)) (Some z))"
  unfolding Evolve_linearizations_def Let_def by (cases "Length c") auto

lemma lin_last:
  "Length c > 0 \<Longrightarrow> t = Length c - 1 \<Longrightarrow>
   Evolve_linearizations c t z = (lss c ! (Length c - 1), LinearSystem (goal c) (getZeroControl (si c)) (Some z))"
  unfolding Evolve_linearizations_def Let_def by simp

lemma lin_inner:
  "t + 1 < Length c \<Longrightarrow>
   Evolve_linearizations c t z = (lss c ! t, lss c ! (t + 1))"
  unfolding Evolve_linearizations_def Let_def by (cases "Length c") auto

text \<open>
  C10. Boundary behaviour of \<^verbatim>\<open>Evolve(state, t)\<close>, with \<open>L\<close> the number of stored
  linear systems, \<open>u\<close> the feedback control, \<open>z\<close> the observation read after applying
  it and \<open>G\<close> the linear system freshly built at the goal with the zero control and
  \<open>z\<close>: for \<open>L = 0\<close> or \<open>t \<ge> L\<close> the filter runs on \<open>(G, G)\<close>; for \<open>t = L - 1\<close> it
  runs on \<open>(lss[L-1], G)\<close>; for \<open>t < L - 1\<close> it runs on \<open>(lss[t], lss[t+1])\<close>.
\<close>

theorem Evolve_boundary:
  "(let L = length (lss c);
        u = generateFeedbackControl c state t;
        z = getObservation (si c) (applyControl (si c) u w);
        G = LinearSystem (goal c) (getZeroControl (si c)) (Some z);
        nextState = fst (Evolve c state t w)
    in (L = 0 \<or> t \<ge> L \<longrightarrow> nextState = filterEvolve c state u z G G)
     \<and> (L > 0 \<and> t = L - 1 \<longrightarrow> nextState = filterEvolve c state u z (lss c ! (L - 1)) G)
     \<and> (t + 1 < L \<longrightarrow> nextState = filterEvolve c state u z (lss c ! t) (lss c ! (t + 1))))"
proof -
  have L: "length (lss c) = Length c" by (simp add: Length_def)
  show ?thesis
    unfolding Let_def L
  proof (intro conjI impI)
    assume "Length c = 0 \<or> Length c \<le> t"
    then show "fst (Evolve c state t w) = filterEvolve c state (generateFeedbackControl c state t)
      (getObservation (si c) (applyControl (si c) (generateFeedbackControl c state t) w))
      (LinearSystem (goal c) (getZeroControl (si c)) (Some (getObservation (si c) (applyControl (si c) (generateFeedbackControl c state t) w))))
      (LinearSystem (goal c) (getZeroControl (si c)) (Some (getObservation (si c) (applyControl (si c) (generateFeedbackControl c state t) w))))"
      by (simp add: Evolve_def Let_def lin_beyond)
  next
    assume "0 < Length c \<and> t = Length c - 1"
    then show "fst (Evolve c state t w) = filterEvolve c state (generateFeedbackControl c state t)
      (getObservation (si c) (applyControl (si c) (generateFeedbackControl c state t) w))
      (lss c ! (Length c - 1))
      (LinearSystem (goal c) (getZeroControl (si c)) (Some (getObservation (si c) (applyControl (si c) (generateFeedbackControl c state t) w))))"
      by (simp add: Evolve_def Let_def lin_last)
  next
    assume "t + 1 < Length c"
    then show "fst (Evolve c state t w) = filterEvolve c state (generateFeedbackControl c state t)
      (getObservation (si c) (applyControl (si c) (generateFeedbackControl c state t) w))
      (lss c ! t) (lss c ! (t + 1))"
      by (simp add: Evolve_def Let_def lin_inner)
  qed
qed

theorem Evolve_boundary_witness:
  "length (lss (lineController [lineBelief 2, lineBelief 1])) = 2
   \<and> fst (Evolve (lineController [lineBelief 2, lineBelief 1]) (lineBelief 3) 5 True)
       = lineBelief 2
   \<and> fst (Evolve (lineController [lineBelief 2, lineBelief 1]) (lineBelief 3) 1 True)
       = lineBelief 2
   \<and> fst (Evolve (lineController [lineBelief 2, lineBelief 1]) (lineBelief 3) 0 True)
       = lineBelief 2"
  using Evolve_boundary [of "lineController [lineBelief 2, lineBelief 1]" "lineBelief 3" 5 True]
        Evolve_boundary [of "lineController [lineBelief 2, lineBelief 1]" "lineBelief 3" 1 True]
        Evolve_boundary [of "lineController [lineBelief 2, lineBelief 1]" "lineBelief 3" 0 True]
  by (simp add: Let_def lineController_def mkController_def lineBelief_def)

subsection \<open>Running the line controller\<close>

lemmas line_defs = isTerminated_def Evolve_def Evolve_linearizations_def Length_def
  nominalX_def deviates_def lineSI_def lineBelief_def lineController_def mkController_def
  trace_def upt_rec Let_def norm2_def size_t_of_int_def

text \<open>No value of the cap changes what \<^verbatim>\<open>Execute\<close> does.\<close>

lemma maxExecTime_irrelevant:
  "isTerminated (c\<lparr>maxExecTime := m\<rparr>) s t = isTerminated c s t"
  "Evolve (c\<lparr>maxExecTime := m\<rparr>) s t w = Evolve c s t w"
  "nominalX (c\<lparr>maxExecTime := m\<rparr>) t = nominalX c t"
  "deviates (c\<lparr>maxExecTime := m\<rparr>) n s = deviates c n s"
  by (simp_all add: isTerminated_def Evolve_def Evolve_linearizations_def Length_def
      nominalX_def deviates_def Let_def cong: if_cong)

lemma Execute_while_cap_Some:
  "Execute_while c cm k cost i t w = Some r \<Longrightarrow>
   Execute_while (c\<lparr>maxExecTime := m\<rparr>) cm k cost i t w = Some r"
proof (rule Execute_while.raw_induct
    [where P = "\<lambda>c cm k cost i t w r. Execute_while (c\<lparr>maxExecTime := m\<rparr>) cm k cost i t w = Some r"])
  fix f :: "'a Controller \<Rightarrow> bool \<Rightarrow> 32 word \<Rightarrow> real \<Rightarrow> belief \<Rightarrow> belief \<Rightarrow> 'a
   \<Rightarrow> (failure + bool \<times> 32 word \<times> real \<times> belief \<times> 'a) option"
  fix c :: "'a Controller" and cm k cost i t w r
  assume IH: "\<And>c cm k cost i t w r. f c cm k cost i t w = Some r \<Longrightarrow>
     Execute_while (c\<lparr>maxExecTime := m\<rparr>) cm k cost i t w = Some r"
  assume eq: "(if \<not> isTerminated c t (unat k)
      then let ev = Evolve c i (unat k) w;
               tempEndState' = fst ev; w' = snd ev;
               internalState' = tempEndState'
           in if cm \<and> \<not> checkTrueStateValidity (si c) w'
              then Some (Inr (False, k, cost, internalState', w'))
              else case nominalX c (unat k) of Inl e \<Rightarrow> Some (Inl e)
                   | Inr nominalX_K \<Rightarrow>
                       if deviates c nominalX_K internalState' \<or>
                          \<not> checkTrueStateValidity (si c) w'
                       then Some (Inr (False, k, cost, internalState', w'))
                       else f c cm (k + 1)
                             (cost + trace (covariance internalState'))
                             internalState' tempEndState' w'
      else Some (Inr (True, k, cost, i, w))) =
     Some r"
  show "Execute_while (c\<lparr>maxExecTime := m\<rparr>) cm k cost i t w = Some r"
    apply (subst Execute_while.simps)
    using eq IH
    by (auto simp: Let_def maxExecTime_irrelevant split: if_splits sum.splits)
qed

lemma Execute_ignores_maxExecTime:
  "Execute (c\<lparr>maxExecTime := m\<rparr>) s f st tt cm w = Execute c s f st tt cm w"
proof -
  have "Execute_while (c\<lparr>maxExecTime := m\<rparr>) cm k cost i t w = Execute_while c cm k cost i t w"
    for k cost i t
  proof (cases "Execute_while c cm k cost i t w")
    case (Some r)
    from Execute_while_cap_Some [OF this, of m] Some show ?thesis by simp
  next
    case None
    show ?thesis
    proof (cases "Execute_while (c\<lparr>maxExecTime := m\<rparr>) cm k cost i t w")
      case (Some r)
      from Execute_while_cap_Some [OF this, of "maxExecTime c"] None show ?thesis by simp
    next
      case n: None
      with None show ?thesis by simp
    qed
  qed
  then show ?thesis by (simp add: Execute_def)
qed

text \<open>
  C4. The claim: every \<^verbatim>\<open>Execute\<close> performs at most \<open>maxExecTime = ceil(3 L)\<close>
  \<^verbatim>\<open>Evolve\<close> iterations. The loop never reads \<^verbatim>\<open>maxExecTime_\<close>: on a nominal
  trajectory of length 1 (cap 3), a belief that starts five steps from the goal is
  evolved five times before \<^verbatim>\<open>Execute\<close> returns.
\<close>

theorem Execute_runs_past_maxExecTime:
  "maxExecTime (lineController [lineBelief 0]) = 3 \<and>
   Execute (lineController [lineBelief 0]) (lineBelief 5) 0 0 0 True True
     = Some (Inr (True, lineBelief 0, 0.001 + 5, 5, 5, True))"
  by (simp add: Execute_def Execute_while.simps line_defs)

text \<open>
  Whatever the controller, a successful \<^verbatim>\<open>executeUpto\<close> of at least one step reports
  the bias plus the trace of the final covariance.
\<close>

lemma executeOneStep_cost:
  "executeOneStep c k s f cm w = Inr (True, e, f', w') \<Longrightarrow> f' = 0.001 + trace (covariance e)"
  by (auto simp: executeOneStep_def Let_def split: if_splits sum.splits)

lemma executeUpto_while_cost:
  "executeUpto_while c n k t e f cm w = Inr (True, k', e', f', w') \<Longrightarrow> k < n \<Longrightarrow>
   f' = 0.001 + trace (covariance e')"
proof (induction c n k t e f cm w rule: executeUpto_while.induct)
  case (1 c numSteps k tempState endState filteringCost constructionMode w)
  from "1.prems" obtain te f1 w1 where
    step: "executeOneStep c k tempState filteringCost constructionMode w = Inr (True, te, f1, w1)"
    and rest: "executeUpto_while c numSteps (k + 1) te te f1 constructionMode w1 = Inr (True, k', e', f', w')"
    by (subst (asm) executeUpto_while.simps) (auto split: sum.splits if_splits)
  from executeOneStep_cost [OF step] have f1: "f1 = 0.001 + trace (covariance te)" .
  show ?case
  proof (cases "k + 1 < numSteps")
    case True
    from "1.IH" [OF "1.prems"(2) step refl refl refl _ rest True] show ?thesis by simp
  next
    case False
    with rest have "e' = te \<and> f' = f1"
      by (subst (asm) executeUpto_while.simps) simp
    with f1 show ?thesis by simp
  qed
qed

lemma executeUpto_cost_last_step:
  assumes "executeUpto c numSteps s e0 f0 st0 cm w = Inr (True, e, f, st, w')" and "numSteps \<ge> 1"
  shows "f = 0.001 + trace (covariance e)"
proof -
  from assms(1) obtain k where
    "executeUpto_while c numSteps 0 s e0 f0 cm w = Inr (True, k, e, f, w')"
    by (auto simp: executeUpto_def split: sum.splits)
  from executeUpto_while_cost [OF this] assms(2) show ?thesis by simp
qed

text \<open>
  C7. The claim: \<^verbatim>\<open>executeUpto\<close> reports the cost accumulated over all executed steps.
  Each \<^verbatim>\<open>executeOneStep\<close> assigns the out-parameter afresh, so after two successful
  steps of cost \<open>0.001 + 1\<close> each, the reported cost is \<open>0.001 + 1\<close>, the cost of the
  last step alone.
\<close>

theorem executeUpto_reports_last_step_cost:
  "executeOneStep (lineController [lineBelief 1, lineBelief 0]) 0 (lineBelief 2) 0 True True
     = Inr (True, lineBelief 1, 0.001 + 1, True)
   \<and> executeOneStep (lineController [lineBelief 1, lineBelief 0]) 1 (lineBelief 1) (0.001 + 1) True True
     = Inr (True, lineBelief 0, 0.001 + 1, True)
   \<and> executeUpto (lineController [lineBelief 1, lineBelief 0]) 2 (lineBelief 2) (lineBelief 2) 0 0 True True
     = Inr (True, lineBelief 0, 0.001 + 1, 2, True)"
  by (simp add: executeUpto_def executeUpto_while.simps executeOneStep_def line_defs)

subsection \<open>The construction-mode flag\<close>

lemma executeOneStep_mode:
  "lss c \<noteq> [] \<Longrightarrow> executeOneStep c k s f False w = executeOneStep c k s f True w"
  by (auto simp: executeOneStep_def Let_def nominalX_def split: sum.splits)

lemma Execute_while_mode_Some:
  "Execute_while c cm k cost i t w = Some r \<Longrightarrow>
   lss c \<noteq> [] \<longrightarrow> Execute_while c (\<not> cm) k cost i t w = Some r"
proof (rule Execute_while.raw_induct
    [where P = "\<lambda>c cm k cost i t w r. lss c \<noteq> [] \<longrightarrow> Execute_while c (\<not> cm) k cost i t w = Some r"])
  fix f :: "'a Controller \<Rightarrow> bool \<Rightarrow> 32 word \<Rightarrow> real \<Rightarrow> belief \<Rightarrow> belief \<Rightarrow> 'a
   \<Rightarrow> (failure + bool \<times> 32 word \<times> real \<times> belief \<times> 'a) option"
  fix c :: "'a Controller" and cm k cost i t w r
  assume IH: "\<And>c cm k cost i t w r. f c cm k cost i t w = Some r \<Longrightarrow>
     lss c \<noteq> [] \<longrightarrow> Execute_while c (\<not> cm) k cost i t w = Some r"
  assume eq: "(if \<not> isTerminated c t (unat k)
      then let ev = Evolve c i (unat k) w;
               tempEndState' = fst ev; w' = snd ev;
               internalState' = tempEndState'
           in if cm \<and> \<not> checkTrueStateValidity (si c) w'
              then Some (Inr (False, k, cost, internalState', w'))
              else case nominalX c (unat k) of Inl e \<Rightarrow> Some (Inl e)
                   | Inr nominalX_K \<Rightarrow>
                       if deviates c nominalX_K internalState' \<or>
                          \<not> checkTrueStateValidity (si c) w'
                       then Some (Inr (False, k, cost, internalState', w'))
                       else f c cm (k + 1)
                             (cost + trace (covariance internalState'))
                             internalState' tempEndState' w'
      else Some (Inr (True, k, cost, i, w))) =
     Some r"
  show "lss c \<noteq> [] \<longrightarrow> Execute_while c (\<not> cm) k cost i t w = Some r"
  proof
    assume ne: "lss c \<noteq> []"
    show "Execute_while c (\<not> cm) k cost i t w = Some r"
      apply (subst Execute_while.simps)
      using eq ne IH[of _ True, simplified] IH[of _ False, simplified]
      by (cases cm) (auto simp: Let_def nominalX_def split: if_splits sum.splits)
  qed
qed

lemma Execute_while_mode:
  assumes "lss c \<noteq> []"
  shows "Execute_while c False k cost i t w = Execute_while c True k cost i t w"
proof (cases "Execute_while c False k cost i t w")
  case None
  show ?thesis
  proof (cases "Execute_while c True k cost i t w")
    case None
    with \<open>Execute_while c False k cost i t w = None\<close> show ?thesis by simp
  next
    case (Some r)
    from Execute_while_mode_Some[OF Some] assms None show ?thesis by simp
  qed
next
  case (Some r)
  from Execute_while_mode_Some[OF Some] assms Some show ?thesis by simp
qed

lemma executeOneStep_status:
  assumes "lss c \<noteq> []" and "executeOneStep c k s f False w = Inr (status, e, cost, w')"
  shows "status \<longleftrightarrow>
           checkTrueStateValidity (si c) w'
           \<and> \<not> deviates c (getX (lss c ! min (size_t_of_int k) (length (lss c) - 1))) e"
proof -
  have m: "n < length (lss c) \<Longrightarrow> min n (length (lss c) - 1) = n"
          "\<not> n < length (lss c) \<Longrightarrow> min n (length (lss c) - 1) = length (lss c) - 1" for n
    by arith+
  show ?thesis
    using assms
    by (auto simp: executeOneStep_def Let_def nominalX_def m split: if_splits)
qed

text \<open>
  C5, as stated, fails: with \<^verbatim>\<open>constructionMode = false\<close> a step whose deviation is
  within the threshold still fails when the true state is invalid.
\<close>

theorem executeOneStep_execution_mode_counterexample:
  "executeOneStep (lineController [lineBelief 0]) 0 (lineBelief 1) 0 False False
     = Inr (False, lineBelief 0, 0, False)
   \<and> \<not> deviates (lineController [lineBelief 0]) (lineBelief 0) (lineBelief 0)"
  by (simp add: executeOneStep_def line_defs)

text \<open>
  C5, amended. The validity of the true state is checked in every step in both modes
  (the test \<^verbatim>\<open>|| !si_->checkTrueStateValidity()\<close> is outside the construction-mode
  block): on a nonempty nominal trajectory \<^verbatim>\<open>executeOneStep\<close> and \<^verbatim>\<open>Execute\<close> give the
  same result for \<^verbatim>\<open>constructionMode = false\<close> as for \<^verbatim>\<open>true\<close>, and a step succeeds
  exactly when the true state is valid and the deviation is within the threshold.
\<close>

theorem validity_checked_in_both_modes:
  assumes "lss c \<noteq> []"
  shows "executeOneStep c k s f False w = executeOneStep c k s f True w
       \<and> Execute c s f st tt False w = Execute c s f st tt True w
       \<and> (\<exists>status e cost w'. executeOneStep c k s f False w = Inr (status, e, cost, w')
            \<and> (status \<longleftrightarrow> checkTrueStateValidity (si c) w'
                 \<and> \<not> deviates c (getX (lss c ! min (size_t_of_int k) (length (lss c) - 1))) e))"
proof (intro conjI)
  show "executeOneStep c k s f False w = executeOneStep c k s f True w"
    using assms by (rule executeOneStep_mode)
  show "Execute c s f st tt False w = Execute c s f st tt True w"
    using assms by (simp add: Execute_def Execute_while_mode)
  have "\<exists>r. executeOneStep c k s f False w = Inr r"
    using assms by (auto simp: executeOneStep_def Let_def nominalX_def)
  then obtain status e cost w' where r: "executeOneStep c k s f False w = Inr (status, e, cost, w')"
    by (metis prod_cases4)
  from executeOneStep_status[OF assms r] r
  show "\<exists>status e cost w'. executeOneStep c k s f False w = Inr (status, e, cost, w')
            \<and> (status \<longleftrightarrow> checkTrueStateValidity (si c) w'
                 \<and> \<not> deviates c (getX (lss c ! min (size_t_of_int k) (length (lss c) - 1))) e)"
    by blast
qed

theorem validity_checked_in_both_modes_witness:
  "lss (lineController [lineBelief 0]) \<noteq> []
   \<and> executeOneStep (lineController [lineBelief 0]) 0 (lineBelief 1) 0 True False
       = Inr (False, lineBelief 0, 0, False)
   \<and> Execute (lineController [lineBelief 0]) (lineBelief 1) 0 0 0 True False
       = Some (Inr (False, lineBelief 0, 0, 0, 0, False))"
proof -
  have ne: "lss (lineController [lineBelief 0]) \<noteq> []"
    by (simp add: lineController_def mkController_def)
  have a: "executeOneStep (lineController [lineBelief 0]) 0 (lineBelief 1) 0 False False
       = Inr (False, lineBelief 0, 0, False)"
    by (simp add: executeOneStep_def line_defs)
  have b: "Execute (lineController [lineBelief 0]) (lineBelief 1) 0 0 0 False False
       = Some (Inr (False, lineBelief 0, 0, 0, 0, False))"
    by (simp add: Execute_def Execute_while.simps line_defs)
  from validity_checked_in_both_modes [OF ne, of 0 "lineBelief 1" 0 False 0 0] a b ne
  show ?thesis by simp
qed

section \<open>Properties of the search\<close>

subsection \<open>Backups\<close>

lemmas stat_defs = addThisQVvisit_def addChildQvisit_def addChildQmiss_def getThisQVvisit_def
  getChildQvisit_def getChildQmiss_def getChildQcosttogo_def setChildQcosttogo_def
  getThisQVmincosttogo_def setThisQVmincosttogo_def getChildQVnode_def


text \<open>The two backup blocks are the same function.\<close>

lemma pomcpSimulate_backup_eq:
  "pomcpSimulate_backup P q ok cStep Jchild b = pomcpRollout_backup P False q ok cStep Jchild b"
  by (simp add: pomcpSimulate_backup_def pomcpRollout_backup_def)

lemma backup_fields:
  "thisQVvisit (fst (pomcpRollout_backup P isNew q ok cStep Jchild b)) = backupRule_N b"
  "childQvisits (fst (pomcpRollout_backup P isNew q ok cStep Jchild b)) = backupRule_Nq q b"
  "childQmisses (fst (pomcpRollout_backup P isNew q ok cStep Jchild b)) = backupRule_Mq q ok b"
  "childQcosttogoes (fst (pomcpRollout_backup P isNew q ok cStep Jchild b))
     = backupRule_Qq (obstacleCostToGo P) isNew q ok cStep Jchild b"
  "childQnodes (fst (pomcpRollout_backup P isNew q ok cStep Jchild b)) = childQnodes b"
  by (simp_all add: pomcpRollout_backup_def stat_defs Let_def backupRule_N_def backupRule_Nq_def
      backupRule_Mq_def backupRule_Qq_def)



lemma minQ_merge_le:
  fixes M c m0 :: real
  assumes "M \<le> c" "c \<le> m0"
  shows "(if M = c then (if m0 > c then [] else ns0) @ [x] else []) @ filter (\<lambda>q. cost q = M) xs
       = (if M = m0 then ns0 else []) @ (if c = M then x # filter (\<lambda>q. cost q = M) xs
                                          else filter (\<lambda>q. cost q = M) xs)"
  using assms by auto

lemma minQ_merge_gt:
  fixes M c m0 :: real
  assumes "M \<le> m0" "m0 < c"
  shows "(if M = m0 then ns0 else []) @ filter (\<lambda>q. cost q = M) xs
       = (if M = m0 then ns0 else []) @ (if c = M then x # filter (\<lambda>q. cost q = M) xs
                                          else filter (\<lambda>q. cost q = M) xs)"
  using assms by auto

lemma minQcosttogoLoop_gen:
  "fold (minQcosttogoStep cost) xs (m0, ns0) =
     (Min (insert m0 (cost ` set xs)),
      (if Min (insert m0 (cost ` set xs)) = m0 then ns0 else [])
        @ filter (\<lambda>q. cost q = Min (insert m0 (cost ` set xs))) xs)"
proof (induction xs arbitrary: m0 ns0)
  case Nil
  then show ?case by simp
next
  case (Cons x xs)
  define c where "c = cost x"
  define M where "M = Min (insert m0 (cost ` set (x # xs)))"
  show ?case
  proof (cases "c \<le> m0")
    case True
    have step: "minQcosttogoStep cost x (m0, ns0) = (c, (if m0 > c then [] else ns0) @ [x])"
      using True by (simp add: minQcosttogoStep_def c_def)
    have M1: "Min (insert c (cost ` set xs)) = M"
      unfolding M_def c_def
      using True by (cases "set xs = {}") (auto simp: Min_insert2 min_def c_def intro: antisym)
    have le: "M \<le> c" unfolding M1 [symmetric] by simp
    have "fold (minQcosttogoStep cost) (x # xs) (m0, ns0)
          = fold (minQcosttogoStep cost) xs (c, (if m0 > c then [] else ns0) @ [x])"
      by (simp add: step)
    also have "\<dots> = (M, (if M = c then (if m0 > c then [] else ns0) @ [x] else [])
                   @ filter (\<lambda>q. cost q = M) xs)"
      unfolding Cons.IH M1 ..
    also have "\<dots> = (M, (if M = m0 then ns0 else []) @ filter (\<lambda>q. cost q = M) (x # xs))"
      using minQ_merge_le [OF le True, of ns0 x cost xs] by (simp add: c_def)
    finally show ?thesis unfolding M_def .
  next
    case False
    then have lt: "m0 < c" by simp
    have step: "minQcosttogoStep cost x (m0, ns0) = (m0, ns0)"
      using False by (simp add: minQcosttogoStep_def c_def)
    have M1: "Min (insert m0 (cost ` set xs)) = M"
      unfolding M_def
      using lt by (cases "set xs = {}") (auto simp: Min_insert2 min_def c_def intro: antisym)
    have le: "M \<le> m0" unfolding M1 [symmetric] by simp
    have "fold (minQcosttogoStep cost) (x # xs) (m0, ns0)
          = fold (minQcosttogoStep cost) xs (m0, ns0)"
      by (simp add: step)
    also have "\<dots> = (M, (if M = m0 then ns0 else []) @ filter (\<lambda>q. cost q = M) xs)"
      unfolding Cons.IH M1 ..
    also have "\<dots> = (M, (if M = m0 then ns0 else []) @ filter (\<lambda>q. cost q = M) (x # xs))"
      using minQ_merge_gt [OF le lt, of ns0 cost xs x] by (simp add: c_def)
    finally show ?thesis unfolding M_def .
  qed
qed

lemma minQcosttogoLoop_eq:
  "minQcosttogoLoop infiniteCost cost xs =
     (Min (insert infiniteCost (cost ` set xs)),
      filter (\<lambda>q. cost q = Min (insert infiniteCost (cost ` set xs))) xs)"
  by (simp add: minQcosttogoLoop_def minQcosttogoLoop_gen Let_def)



text \<open>
  C2. After the recursive call the backup updates the current vertex \<open>h\<close> for the
  selected action \<open>q\<close> as the specification says: \<open>N(h)\<close> and \<open>N(h,q)\<close> go up by
  one, \<open>M(h,q)\<close> goes up by one after a failed execution, and \<open>Q(h,q)\<close> becomes
  \<open>Q + (Q_k - Q) / N(h,q)\<close> with \<open>Q_k = cStep + (J_child if ok else J_obs)\<close> and
  \<open>Q\<close> reset to 0 at a vertex just expanded; no other entry of the three tables
  changes. The block of \<^verbatim>\<open>pomcpSimulate\<close> is the block of \<^verbatim>\<open>pomcpRollout\<close>.
\<close>

theorem backup_rule:
  "thisQVvisit (fst (pomcpRollout_backup P isNew q ok cStep Jchild b)) = backupRule_N b
   \<and> childQvisits (fst (pomcpRollout_backup P isNew q ok cStep Jchild b)) = backupRule_Nq q b
   \<and> childQmisses (fst (pomcpRollout_backup P isNew q ok cStep Jchild b)) = backupRule_Mq q ok b
   \<and> childQcosttogoes (fst (pomcpRollout_backup P isNew q ok cStep Jchild b))
       = backupRule_Qq (obstacleCostToGo P) isNew q ok cStep Jchild b
   \<and> pomcpSimulate_backup P q ok cStep Jchild b = pomcpRollout_backup P False q ok cStep Jchild b"
  by (simp add: backup_fields pomcpSimulate_backup_eq)

lemmas example_defs = exampleVertex_def examplePlanner_def

theorem backup_rule_witness:
  "thisQVvisit (fst (pomcpRollout_backup examplePlanner False 1 True 2 3 exampleVertex)) = 2
   \<and> childQvisits (fst (pomcpRollout_backup examplePlanner False 1 True 2 3 exampleVertex)) 1 = 2
   \<and> childQmisses (fst (pomcpRollout_backup examplePlanner False 1 True 2 3 exampleVertex)) 1 = 0
   \<and> childQcosttogoes (fst (pomcpRollout_backup examplePlanner False 1 True 2 3 exampleVertex)) 1 = 3
   \<and> childQcosttogoes (fst (pomcpSimulate_backup examplePlanner 1 False 2 3 exampleVertex)) 1 = 1000 + 1 / 2
   \<and> childQmisses (fst (pomcpSimulate_backup examplePlanner 1 False 2 3 exampleVertex)) 1 = 1"
  using backup_rule [of examplePlanner False 1 True 2 3 exampleVertex]
        backup_rule [of examplePlanner False 1 False 2 3 exampleVertex]
  by (simp add: backupRule_N_def backupRule_Nq_def backupRule_Mq_def backupRule_Qq_def example_defs)




subsection \<open>Selecting an action\<close>

lemma breakTie_in: "breakTie cs r = Some q \<Longrightarrow> q \<in> set cs"
proof -
  assume a: "breakTie cs r = Some q"
  then have ne: "cs \<noteq> []" by (auto simp: breakTie_def)
  then have "r mod length cs < length cs" by simp
  then have "cs ! (r mod length cs) \<in> set cs" by (rule nth_mem)
  moreover have "cs ! 0 \<in> set cs" using ne by simp
  ultimately show ?thesis using a by (auto simp: breakTie_def split: if_splits)
qed

lemma breakTie_some: "cs \<noteq> [] \<Longrightarrow> \<exists>q. breakTie cs r = Some q"
  by (simp add: breakTie_def)

lemma breakTie_any:
  assumes "q \<in> set cs"
  shows "\<exists>r. breakTie cs r = Some q"
proof -
  from assms obtain i where i: "i < length cs" "cs ! i = q"
    by (auto simp: in_set_conv_nth)
  then have "breakTie cs i = Some q"
    by (auto simp: breakTie_def)
  then show ?thesis ..
qed

lemma minQcosttogoNodes_set:
  "set (snd (minQcosttogoLoop infiniteCost cost xs))
     = {q \<in> set xs. cost q \<le> infiniteCost \<and> (\<forall>q'\<in>set xs. cost q \<le> cost q')}"
proof -
  let ?M = "Min (insert infiniteCost (cost ` set xs))"
  have le: "?M \<le> infiniteCost" "\<And>q'. q' \<in> set xs \<Longrightarrow> ?M \<le> cost q'"
    by simp_all
  have "cost q = ?M \<longleftrightarrow> cost q \<le> infiniteCost \<and> (\<forall>q'\<in>set xs. cost q \<le> cost q')"
    if q: "q \<in> set xs" for q
  proof
    assume "cost q = ?M"
    with le show "cost q \<le> infiniteCost \<and> (\<forall>q'\<in>set xs. cost q \<le> cost q')" by simp
  next
    assume a: "cost q \<le> infiniteCost \<and> (\<forall>q'\<in>set xs. cost q \<le> cost q')"
    then have "\<forall>a\<in>insert infiniteCost (cost ` set xs). cost q \<le> a" by auto
    moreover have "cost q \<in> insert infiniteCost (cost ` set xs)" using q by simp
    ultimately have "?M = cost q" by (intro Min_eqI) auto
    then show "cost q = ?M" by simp
  qed
  then show ?thesis
    by (auto simp: minQcosttogoLoop_eq)
qed

lemma select_minimum:
  fixes cost :: "Vertex \<Rightarrow> real"
  defines "sel \<equiv> \<lambda>xs infiniteCost r. breakTie (snd (minQcosttogoLoop infiniteCost cost xs)) r"
  shows "sel xs infiniteCost r = Some q \<Longrightarrow> q \<in> set xs \<and> (\<forall>q'\<in>set xs. cost q \<le> cost q')"
    and "\<exists>q\<in>set xs. cost q \<le> infiniteCost \<Longrightarrow> \<exists>q. sel xs infiniteCost r = Some q"
    and "q \<in> set xs \<Longrightarrow> cost q \<le> infiniteCost \<Longrightarrow> \<forall>q'\<in>set xs. cost q \<le> cost q'
         \<Longrightarrow> \<exists>r. sel xs infiniteCost r = Some q"
proof -
  show "sel xs infiniteCost r = Some q \<Longrightarrow> q \<in> set xs \<and> (\<forall>q'\<in>set xs. cost q \<le> cost q')"
    unfolding sel_def using breakTie_in [of "snd (minQcosttogoLoop infiniteCost cost xs)" r q]
    by (simp add: minQcosttogoNodes_set)
  show "\<exists>q. sel xs infiniteCost r = Some q" if "\<exists>q\<in>set xs. cost q \<le> infiniteCost"
  proof -
    have fin: "finite (cost ` set xs)" by simp
    from that have ne: "set xs \<noteq> {}" by auto
    then obtain q0 where q0: "q0 \<in> set xs" "cost q0 = Min (cost ` set xs)"
      using Min_in [OF fin] by (metis (no_types, lifting) image_iff image_is_empty)
    have "cost q0 \<le> infiniteCost"
      using that q0 fin by (metis Min_le image_eqI order_trans)
    moreover have "\<forall>q'\<in>set xs. cost q0 \<le> cost q'" using q0 fin by simp
    ultimately have "q0 \<in> set (snd (minQcosttogoLoop infiniteCost cost xs))"
      using q0 by (simp add: minQcosttogoNodes_set)
    then have "snd (minQcosttogoLoop infiniteCost cost xs) \<noteq> []" by auto
    then show ?thesis unfolding sel_def by (rule breakTie_some)
  qed
  show "\<exists>r. sel xs infiniteCost r = Some q"
    if "q \<in> set xs" "cost q \<le> infiniteCost" "\<forall>q'\<in>set xs. cost q \<le> cost q'"
  proof -
    from that have "q \<in> set (snd (minQcosttogoLoop infiniteCost cost xs))"
      by (simp add: minQcosttogoNodes_set)
    then show ?thesis unfolding sel_def by (rule breakTie_any)
  qed
qed

lemma breakTie_mod:
  "breakTie cs r = (if cs = [] then None else Some (cs ! (r mod length cs)))"
  by (cases cs) (auto simp: breakTie_def)

lemma minQcosttogoNodes_filter:
  "snd (minQcosttogoLoop infiniteCost cost xs)
     = filter (\<lambda>q. cost q \<le> infiniteCost \<and> (\<forall>q'\<in>set xs. cost q \<le> cost q')) xs"
proof -
  let ?M = "Min (insert infiniteCost (cost ` set xs))"
  have "cost q = ?M \<longleftrightarrow> cost q \<le> infiniteCost \<and> (\<forall>q'\<in>set xs. cost q \<le> cost q')"
    if q: "q \<in> set xs" for q
  proof
    assume "cost q = ?M"
    moreover have "?M \<le> infiniteCost" "\<And>q'. q' \<in> set xs \<Longrightarrow> ?M \<le> cost q'" by simp_all
    ultimately show "cost q \<le> infiniteCost \<and> (\<forall>q'\<in>set xs. cost q \<le> cost q')" by simp
  next
    assume a: "cost q \<le> infiniteCost \<and> (\<forall>q'\<in>set xs. cost q \<le> cost q')"
    then have "\<forall>a\<in>insert infiniteCost (cost ` set xs). cost q \<le> a" by auto
    moreover have "cost q \<in> insert infiniteCost (cost ` set xs)" using q by simp
    ultimately have "?M = cost q" by (intro Min_eqI) auto
    then show "cost q = ?M" by simp
  qed
  then have "filter (\<lambda>q. cost q = ?M) xs
             = filter (\<lambda>q. cost q \<le> infiniteCost \<and> (\<forall>q'\<in>set xs. cost q \<le> cost q')) xs"
    by (intro filter_cong) auto
  then show ?thesis by (simp add: minQcosttogoLoop_eq)
qed

lemma residue_count:
  assumes "i < n"
  shows "card {r. r < k * n \<and> r mod n = i} = (k::nat)"
proof -
  have "{r. r < k * n \<and> r mod n = i} = (\<lambda>j. j * n + i) ` {..<k}"
  proof (intro set_eqI iffI)
    fix r assume "r \<in> {r. r < k * n \<and> r mod n = i}"
    then have r: "r < k * n" "r mod n = i" by simp_all
    have "r = (r div n) * n + i" using r(2) by (metis div_mult_mod_eq)
    moreover have "r div n < k" using r(1) assms
      by (metis less_mult_imp_div_less)
    ultimately show "r \<in> (\<lambda>j. j * n + i) ` {..<k}" by blast
  next
    fix r assume "r \<in> (\<lambda>j. j * n + i) ` {..<k}"
    then obtain j where j: "j < k" "r = j * n + i" by auto
    have "j * n + i < j * n + n" using assms by simp
    also have "\<dots> = Suc j * n" by simp
    also have "\<dots> \<le> k * n" using j(1) by (intro mult_le_mono1) simp
    finally have "r < k * n" using j(2) by simp
    moreover have "r mod n = i" using j(2) assms by simp
    ultimately show "r \<in> {r. r < k * n \<and> r mod n = i}" by simp
  qed
  moreover have "inj_on (\<lambda>j. j * n + i) {..<k}"
    using assms by (auto simp: inj_on_def)
  ultimately show ?thesis by (simp add: card_image)
qed

lemma breakTie_count:
  assumes "distinct cs" "i < length cs"
  shows "card {r. r < k * length cs \<and> breakTie cs r = Some (cs ! i)} = k"
proof -
  have ne: "cs \<noteq> []" using assms(2) by auto
  have "breakTie cs r = Some (cs ! i) \<longleftrightarrow> r mod length cs = i" for r
  proof -
    have "r mod length cs < length cs" using ne by simp
    then show ?thesis
      using assms ne by (simp add: breakTie_mod nth_eq_iff_index_eq)
  qed
  then show ?thesis using residue_count [OF assms(2), of k] by simp
qed


lemma selection_rule:
  fixes cost :: "Vertex \<Rightarrow> real"
  shows "breakTie (snd (minQcosttogoLoop infiniteCost cost xs)) r
           = (if filter (\<lambda>q'. cost q' \<le> infiniteCost \<and> (\<forall>q''\<in>set xs. cost q' \<le> cost q'')) xs = [] then None
              else Some (filter (\<lambda>q'. cost q' \<le> infiniteCost \<and> (\<forall>q''\<in>set xs. cost q' \<le> cost q'')) xs
                         ! (r mod length (filter (\<lambda>q'. cost q' \<le> infiniteCost \<and> (\<forall>q''\<in>set xs. cost q' \<le> cost q'')) xs))))
       \<and> (breakTie (snd (minQcosttogoLoop infiniteCost cost xs)) r = Some q \<longrightarrow>
            q \<in> set xs \<and> (\<forall>q'\<in>set xs. cost q \<le> cost q'))
       \<and> ((\<exists>q'\<in>set xs. cost q' \<le> infiniteCost) \<longrightarrow>
            (\<exists>q'. breakTie (snd (minQcosttogoLoop infiniteCost cost xs)) r = Some q'))
       \<and> (q \<in> set xs \<and> cost q \<le> infiniteCost \<and> (\<forall>q'\<in>set xs. cost q \<le> cost q') \<longrightarrow>
            (\<exists>r'. breakTie (snd (minQcosttogoLoop infiniteCost cost xs)) r' = Some q))
       \<and> (distinct xs \<longrightarrow>
            (\<forall>i<length (filter (\<lambda>q'. cost q' \<le> infiniteCost \<and> (\<forall>q''\<in>set xs. cost q' \<le> cost q'')) xs).
               card {r'. r' < k * length (filter (\<lambda>q'. cost q' \<le> infiniteCost \<and> (\<forall>q''\<in>set xs. cost q' \<le> cost q'')) xs)
                          \<and> breakTie (snd (minQcosttogoLoop infiniteCost cost xs)) r'
                              = Some (filter (\<lambda>q'. cost q' \<le> infiniteCost \<and> (\<forall>q''\<in>set xs. cost q' \<le> cost q'')) xs ! i)} = k))"
proof -
  define minima where
    "minima = filter (\<lambda>q'. cost q' \<le> infiniteCost \<and> (\<forall>q''\<in>set xs. cost q' \<le> cost q'')) xs"
  have m: "snd (minQcosttogoLoop infiniteCost cost xs) = minima"
    unfolding minima_def by (rule minQcosttogoNodes_filter)
  have 1: "breakTie minima r = (if minima = [] then None else Some (minima ! (r mod length minima)))"
    by (rule breakTie_mod)
  have 2: "q \<in> set xs \<and> (\<forall>q'\<in>set xs. cost q \<le> cost q')" if "breakTie minima r = Some q"
    using that unfolding m [symmetric] by (rule select_minimum(1))
  have 3: "\<exists>q'. breakTie minima r = Some q'" if "\<exists>q'\<in>set xs. cost q' \<le> infiniteCost"
    using that unfolding m [symmetric] by (rule select_minimum(2))
  have 4: "\<exists>r'. breakTie minima r' = Some q"
    if "q \<in> set xs" "cost q \<le> infiniteCost" "\<forall>q'\<in>set xs. cost q \<le> cost q'"
    using that unfolding m [symmetric] by (rule select_minimum(3))
  have 5: "\<forall>i<length minima. card {r'. r' < k * length minima \<and> breakTie minima r' = Some (minima ! i)} = k"
    if "distinct xs"
  proof -
    from that have "distinct minima" unfolding minima_def by simp
    then show ?thesis by (simp add: breakTie_count)
  qed
  from 1 2 3 4 5 show ?thesis unfolding m minima_def [symmetric] by blast
qed

text \<open>
  C3. In \<^verbatim>\<open>pomcpSimulate\<close>, at an expanded vertex at a depth below
  \<^verbatim>\<open>maxPOMCPDepth_\<close>, an action is selected. With the score of a child action
  \<open>q\<close> being \<open>Q(h,q) - cExplorationForSimulate * sqrt(log(N(h)+1) / (N(h,q)+1e-10))\<close>
  and \<open>minima\<close> the child actions, in their stored order, whose score is least and at
  most \<^verbatim>\<open>infiniteCostToGo_\<close>, the action selected is the one at index
  \<^verbatim>\<open>rand() % size\<close> of \<open>minima\<close>, and none if \<open>minima\<close> is empty. Hence the
  action selected minimises the score over the child actions; the selection succeeds
  whenever some child action has a score of at most \<^verbatim>\<open>infiniteCostToGo_\<close>; every
  minimising action is selected for some value of \<^verbatim>\<open>rand()\<close>; and, the child actions
  being distinct, among the values of \<^verbatim>\<open>rand()\<close> below \<open>k\<close> times the number of
  minima each minimum is selected by exactly \<open>k\<close>.
\<close>

theorem pomcpSimulate_selects_ucb_minimum:
  "(let score = (\<lambda>q'. childQcosttogoes b q'
                     - cExplorationForSimulate P
                         * sqrt (ln (real (thisQVvisit b) + 1) / (real (childQvisits b q') + 1 / 10 ^ 10)));
        minima = filter (\<lambda>q'. score q' \<le> infiniteCostToGo P
                               \<and> (\<forall>q''\<in>set (childQnodes b). score q' \<le> score q'')) (childQnodes b)
    in pomcpSimulate_selectAction P b r
         = (if minima = [] then None else Some (minima ! (r mod length minima)))
     \<and> (pomcpSimulate_selectAction P b r = Some q \<longrightarrow>
          q \<in> set (childQnodes b) \<and> (\<forall>q'\<in>set (childQnodes b). score q \<le> score q'))
     \<and> ((\<exists>q'\<in>set (childQnodes b). score q' \<le> infiniteCostToGo P) \<longrightarrow>
          (\<exists>q'. pomcpSimulate_selectAction P b r = Some q'))
     \<and> (q \<in> set (childQnodes b) \<and> score q \<le> infiniteCostToGo P
          \<and> (\<forall>q'\<in>set (childQnodes b). score q \<le> score q') \<longrightarrow>
          (\<exists>r'. pomcpSimulate_selectAction P b r' = Some q))
     \<and> (distinct (childQnodes b) \<longrightarrow>
          (\<forall>i<length minima.
             card {r'. r' < k * length minima
                       \<and> pomcpSimulate_selectAction P b r' = Some (minima ! i)} = k))
     \<and> (d < maxPOMCPDepth P \<longrightarrow>
          pomcpSimulate_horizon P d targetVertex isReached approxCostToGo b = SelectAction))"
proof -
  have sc: "ucbCosttogo P b = (\<lambda>q'. childQcosttogoes b q'
                     - cExplorationForSimulate P
                         * sqrt (ln (real (thisQVvisit b) + 1) / (real (childQvisits b q') + 1 / 10 ^ 10)))"
    by (rule ext) (simp add: ucbCosttogo_def stat_defs Let_def)
  have h: "d < maxPOMCPDepth P \<longrightarrow>
          pomcpSimulate_horizon P d targetVertex isReached approxCostToGo b = SelectAction"
    by (simp add: pomcpSimulate_horizon_def)
  show ?thesis
    unfolding Let_def pomcpSimulate_selectAction_def sc
    using selection_rule [of "infiniteCostToGo P" "\<lambda>q'. childQcosttogoes b q'
                     - cExplorationForSimulate P
                         * sqrt (ln (real (thisQVvisit b) + 1) / (real (childQvisits b q') + 1 / 10 ^ 10))"
                     "childQnodes b" r q k] h
    by blast
qed

theorem pomcpSimulate_selects_ucb_minimum_witness:
  "0 < maxPOMCPDepth examplePlanner
   \<and> distinct (childQnodes (exampleVertex\<lparr>childQvisits := (\<lambda>q. 1), childQcosttogoes := (\<lambda>q. 1)\<rparr>))
   \<and> pomcpSimulate_horizon examplePlanner 0 2 False 0
        (exampleVertex\<lparr>childQvisits := (\<lambda>q. 1), childQcosttogoes := (\<lambda>q. 1)\<rparr>) = SelectAction
   \<and> pomcpSimulate_selectAction examplePlanner
        (exampleVertex\<lparr>childQvisits := (\<lambda>q. 1), childQcosttogoes := (\<lambda>q. 1)\<rparr>) 7 = Some 2
   \<and> pomcpSimulate_selectAction examplePlanner
        (exampleVertex\<lparr>childQvisits := (\<lambda>q. 1), childQcosttogoes := (\<lambda>q. 1)\<rparr>) 4 = Some 1
   \<and> card {r'. r' < 6 \<and> pomcpSimulate_selectAction examplePlanner
        (exampleVertex\<lparr>childQvisits := (\<lambda>q. 1), childQcosttogoes := (\<lambda>q. 1)\<rparr>) r' = Some 1} = 3"
proof -
  let ?b = "exampleVertex\<lparr>childQvisits := (\<lambda>q. 1), childQcosttogoes := (\<lambda>q. 1)\<rparr>"
  define beta :: real where
    "beta = cExplorationForSimulate examplePlanner
              * sqrt (ln (real (thisQVvisit ?b) + 1) / (real (childQvisits ?b 0) + 1 / 10 ^ 10))"
  have beta: "0 \<le> beta" by (simp add: beta_def example_defs)
  have sc: "childQcosttogoes ?b q'
              - cExplorationForSimulate examplePlanner
                  * sqrt (ln (real (thisQVvisit ?b) + 1) / (real (childQvisits ?b q') + 1 / 10 ^ 10))
            = 1 - beta" for q'
    by (simp add: beta_def)
  have nodes: "childQnodes ?b = [1, 2]" by (simp add: example_defs)
  have m: "filter (\<lambda>q'. 1 - beta \<le> infiniteCostToGo examplePlanner
                         \<and> (\<forall>q''\<in>set (childQnodes ?b). 1 - beta \<le> 1 - beta)) (childQnodes ?b) = [1, 2]"
    unfolding nodes using beta by (simp add: example_defs)
  have d: "0 < maxPOMCPDepth examplePlanner" by (simp add: example_defs)
  have dist: "distinct (childQnodes ?b)" unfolding nodes by simp
  note T = pomcpSimulate_selects_ucb_minimum
             [where P = examplePlanner and b = ?b and q = 2 and k = 3 and d = 0
                and targetVertex = 2 and isReached = False and approxCostToGo = 0,
              unfolded Let_def sc m]
  from T [of 7] have s7: "pomcpSimulate_selectAction examplePlanner ?b 7 = Some 2"
    by (simp add: numeral_2_eq_2 [symmetric])
  from T [of 4] have s4: "pomcpSimulate_selectAction examplePlanner ?b 4 = Some 1"
    by (simp add: numeral_2_eq_2 [symmetric])
  from T [of 7] dist
  have "\<forall>i<length [1, 2 :: nat].
          card {r'. r' < 3 * length [1, 2 :: nat]
                    \<and> pomcpSimulate_selectAction examplePlanner ?b r' = Some ([1, 2] ! i)} = 3"
    by blast
  from this [rule_format, of 0]
  have c: "card {r'. r' < 6 \<and> pomcpSimulate_selectAction examplePlanner ?b r' = Some 1} = 3"
    by simp
  from T [of 7] d
  have h: "pomcpSimulate_horizon examplePlanner 0 2 False 0 ?b = SelectAction"
    by blast
  from d dist h s7 s4 c show ?thesis by blast
qed

subsection \<open>The policy without particles\<close>

lemma generatePOMCPPolicy_zero:
  assumes "numPOMCPParticles P = 0"
  shows "generatePOMCPPolicy S P v goalVertex r (g, w) =
     (case breakTie (snd (minQcosttogoLoop (infiniteCostToGo P)
                            (childQcosttogoes (stateProperty g v)) (childQnodes (stateProperty g v)))) r of
        None \<Rightarrow> (Inl AssertionFailed, g, w)
      | Some q \<Rightarrow> (Inr (v, q), g, setTrueState S (getTrueState S w) w))"
proof -
  have "getChildQcosttogo (stateProperty g v) = childQcosttogoes (stateProperty g v)"
    by (simp add: fun_eq_iff getChildQcosttogo_def)
  then show ?thesis
    using assms by (simp add: generatePOMCPPolicy_def particleCount_def boost_edge_def Let_def
        split: option.splits)
qed

text \<open>
  C8. With no particles \<^verbatim>\<open>generatePOMCPPolicy\<close> leaves the graph, hence every
  statistic of every vertex, as it is, and does not depend on \<^verbatim>\<open>pomcpSimulate\<close>.
  With \<open>minima\<close> the child actions of the root, in their stored order, whose stored
  \<open>Q(root,q)\<close> is least and at most \<^verbatim>\<open>infiniteCostToGo_\<close>, it returns the edge from
  the root to the element of \<open>minima\<close> at index \<^verbatim>\<open>rand() % size\<close>, with the true
  state set back to what it was, and fails its assertion if \<open>minima\<close> is empty. Hence
  the edge returned goes to a child action of minimum stored \<open>Q(root,q)\<close>; an edge is
  returned whenever some child action has a cost of at most \<^verbatim>\<open>infiniteCostToGo_\<close>;
  every minimising child action is returned for some value of \<^verbatim>\<open>rand()\<close>; and, the
  child actions being distinct, among the values of \<^verbatim>\<open>rand()\<close> below \<open>k\<close> times
  the number of minima each minimum is returned by exactly \<open>k\<close>.
\<close>

theorem generatePOMCPPolicy_no_particles:
  assumes "numPOMCPParticles P = 0"
  shows "(let Q = childQcosttogoes (stateProperty g v);
              minima = filter (\<lambda>q'. Q q' \<le> infiniteCostToGo P
                                     \<and> (\<forall>q''\<in>set (childQnodes (stateProperty g v)). Q q' \<le> Q q''))
                              (childQnodes (stateProperty g v))
          in generatePOMCPPolicy S P v goalVertex r (g, w)
               = (if minima = [] then (Inl AssertionFailed, g, w)
                  else (Inr (v, minima ! (r mod length minima)), g,
                        setTrueState S (getTrueState S w) w))
           \<and> fst (snd (generatePOMCPPolicy S P v goalVertex r (g, w))) = g
           \<and> generatePOMCPPolicy (S\<lparr>pomcpSimulate := sim\<rparr>) P v goalVertex r (g, w)
               = generatePOMCPPolicy S P v goalVertex r (g, w)
           \<and> (fst (generatePOMCPPolicy S P v goalVertex r (g, w)) = Inr e \<longrightarrow>
                fst e = v \<and> snd e \<in> set (childQnodes (stateProperty g v))
                \<and> (\<forall>q'\<in>set (childQnodes (stateProperty g v)). Q (snd e) \<le> Q q')
                \<and> snd (snd (generatePOMCPPolicy S P v goalVertex r (g, w)))
                    = setTrueState S (getTrueState S w) w)
           \<and> ((\<exists>q'\<in>set (childQnodes (stateProperty g v)). Q q' \<le> infiniteCostToGo P) \<longrightarrow>
                (\<exists>q'. fst (generatePOMCPPolicy S P v goalVertex r (g, w)) = Inr (v, q')))
           \<and> (q \<in> set (childQnodes (stateProperty g v)) \<and> Q q \<le> infiniteCostToGo P
                \<and> (\<forall>q'\<in>set (childQnodes (stateProperty g v)). Q q \<le> Q q') \<longrightarrow>
                (\<exists>r'. fst (generatePOMCPPolicy S P v goalVertex r' (g, w)) = Inr (v, q)))
           \<and> (distinct (childQnodes (stateProperty g v)) \<longrightarrow>
                (\<forall>i<length minima.
                   card {r'. r' < k * length minima
                             \<and> fst (generatePOMCPPolicy S P v goalVertex r' (g, w))
                                 = Inr (v, minima ! i)} = k)))"
proof -
  define Q where "Q = childQcosttogoes (stateProperty g v)"
  define xs where "xs = childQnodes (stateProperty g v)"
  define minima where
    "minima = filter (\<lambda>q'. Q q' \<le> infiniteCostToGo P \<and> (\<forall>q''\<in>set xs. Q q' \<le> Q q'')) xs"
  define sel where "sel = (\<lambda>r. breakTie (snd (minQcosttogoLoop (infiniteCostToGo P) Q xs)) r)"
  have z: "generatePOMCPPolicy S' P v goalVertex r' (g, w) =
     (case sel r' of
        None \<Rightarrow> (Inl AssertionFailed, g, w)
      | Some q \<Rightarrow> (Inr (v, q), g, setTrueState S' (getTrueState S' w) w))" for r' S'
    unfolding sel_def Q_def xs_def by (rule generatePOMCPPolicy_zero [OF assms])
  note R = selection_rule [of "infiniteCostToGo P" Q xs, folded minima_def sel_def]
  have sel: "sel r' = (if minima = [] then None else Some (minima ! (r' mod length minima)))" for r'
    using R [of r'] by blast
  have 0: "generatePOMCPPolicy S P v goalVertex r (g, w)
               = (if minima = [] then (Inl AssertionFailed, g, w)
                  else (Inr (v, minima ! (r mod length minima)), g,
                        setTrueState S (getTrueState S w) w))"
    by (simp add: z sel)
  have 1: "fst (snd (generatePOMCPPolicy S P v goalVertex r (g, w))) = g"
    by (simp add: z split: option.splits)
  have 2: "generatePOMCPPolicy (S\<lparr>pomcpSimulate := sim\<rparr>) P v goalVertex r (g, w)
           = generatePOMCPPolicy S P v goalVertex r (g, w)"
    by (simp add: z split: option.splits)
  have 3: "fst e = v \<and> snd e \<in> set xs \<and> (\<forall>q'\<in>set xs. Q (snd e) \<le> Q q')
           \<and> snd (snd (generatePOMCPPolicy S P v goalVertex r (g, w)))
                = setTrueState S (getTrueState S w) w"
    if "fst (generatePOMCPPolicy S P v goalVertex r (g, w)) = Inr e"
  proof -
    from that obtain q' where q': "sel r = Some q'" "e = (v, q')"
      by (auto simp: z split: option.splits)
    from R [of r q'] q' have "q' \<in> set xs \<and> (\<forall>q''\<in>set xs. Q q' \<le> Q q'')" by blast
    with q' show ?thesis by (simp add: z)
  qed
  have 4: "\<exists>q'. fst (generatePOMCPPolicy S P v goalVertex r (g, w)) = Inr (v, q')"
    if "\<exists>q'\<in>set xs. Q q' \<le> infiniteCostToGo P"
  proof -
    from R [of r] that obtain q' where "sel r = Some q'" by blast
    then show ?thesis by (simp add: z)
  qed
  have 5: "\<exists>r'. fst (generatePOMCPPolicy S P v goalVertex r' (g, w)) = Inr (v, q)"
    if "q \<in> set xs" "Q q \<le> infiniteCostToGo P" "\<forall>q'\<in>set xs. Q q \<le> Q q'"
  proof -
    from R [of r q] that obtain r' where "sel r' = Some q" by blast
    then have "fst (generatePOMCPPolicy S P v goalVertex r' (g, w)) = Inr (v, q)"
      by (simp add: z)
    then show ?thesis ..
  qed
  have 6: "\<forall>i<length minima.
             card {r'. r' < k * length minima
                       \<and> fst (generatePOMCPPolicy S P v goalVertex r' (g, w)) = Inr (v, minima ! i)} = k"
    if "distinct xs"
  proof -
    have "fst (generatePOMCPPolicy S P v goalVertex r' (g, w)) = Inr (v, x) \<longleftrightarrow> sel r' = Some x"
      for r' x
      by (simp add: z split: option.splits)
    then show ?thesis using R [of r q k] that by simp
  qed
  from 0 1 2 3 4 5 6 show ?thesis
    unfolding Let_def Q_def [symmetric] xs_def [symmetric] minima_def [symmetric] by blast
qed

lemmas graph_defs = exampleGraph_def treeVertex_def exampleSimulator_def

theorem generatePOMCPPolicy_no_particles_witness:
  "numPOMCPParticles examplePlanner = 0
   \<and> distinct (childQnodes (stateProperty (exampleGraph\<lparr>stateProperty := (\<lambda>v. exampleVertex\<lparr>childQcosttogoes := (\<lambda>q. 1)\<rparr>)\<rparr>) 10))
   \<and> generatePOMCPPolicy exampleSimulator examplePlanner 10 2 7
        (exampleGraph\<lparr>stateProperty := (\<lambda>v. exampleVertex\<lparr>childQcosttogoes := (\<lambda>q. 1)\<rparr>)\<rparr>, 5)
       = (Inr (10, 2), exampleGraph\<lparr>stateProperty := (\<lambda>v. exampleVertex\<lparr>childQcosttogoes := (\<lambda>q. 1)\<rparr>)\<rparr>, 5)
   \<and> generatePOMCPPolicy exampleSimulator examplePlanner 10 2 4
        (exampleGraph\<lparr>stateProperty := (\<lambda>v. exampleVertex\<lparr>childQcosttogoes := (\<lambda>q. 1)\<rparr>)\<rparr>, 5)
       = (Inr (10, 1), exampleGraph\<lparr>stateProperty := (\<lambda>v. exampleVertex\<lparr>childQcosttogoes := (\<lambda>q. 1)\<rparr>)\<rparr>, 5)
   \<and> card {r'. r' < 6 \<and> fst (generatePOMCPPolicy exampleSimulator examplePlanner 10 2 r'
        (exampleGraph\<lparr>stateProperty := (\<lambda>v. exampleVertex\<lparr>childQcosttogoes := (\<lambda>q. 1)\<rparr>)\<rparr>, 5))
          = Inr (10, 1)} = 3"
proof -
  let ?g = "exampleGraph\<lparr>stateProperty := (\<lambda>v. exampleVertex\<lparr>childQcosttogoes := (\<lambda>q. 1)\<rparr>)\<rparr>"
  have h: "numPOMCPParticles examplePlanner = 0" by (simp add: example_defs)
  have nodes: "childQnodes (stateProperty ?g 10) = [1, 2]" by (simp add: example_defs)
  have Q: "childQcosttogoes (stateProperty ?g 10) = (\<lambda>q. 1)" by simp
  have dist: "distinct (childQnodes (stateProperty ?g 10))" unfolding nodes by simp
  have m: "filter (\<lambda>q'. (1::real) \<le> infiniteCostToGo examplePlanner
                         \<and> (\<forall>q''\<in>set [1, 2 :: nat]. (1::real) \<le> 1)) [1, 2 :: nat] = [1, 2]"
    by (simp add: example_defs)
  have w: "setTrueState exampleSimulator (getTrueState exampleSimulator 5) 5 = 5"
    by (simp add: exampleSimulator_def)
  note T = generatePOMCPPolicy_no_particles
             [OF h, where S = exampleSimulator and v = 10 and goalVertex = 2 and g = ?g
                and w = 5 and q = 2 and k = 3, unfolded Let_def Q nodes m w]
  from T [of 7] have s7: "generatePOMCPPolicy exampleSimulator examplePlanner 10 2 7 (?g, 5)
                            = (Inr (10, 2), ?g, 5)"
    by (simp add: numeral_2_eq_2 [symmetric])
  from T [of 4] have s4: "generatePOMCPPolicy exampleSimulator examplePlanner 10 2 4 (?g, 5)
                            = (Inr (10, 1), ?g, 5)"
    by (simp add: numeral_2_eq_2 [symmetric])
  from T [of 7] dist [unfolded nodes]
  have "\<forall>i<length [1, 2 :: nat].
          card {r'. r' < 3 * length [1, 2 :: nat]
                    \<and> fst (generatePOMCPPolicy exampleSimulator examplePlanner 10 2 r' (?g, 5))
                        = Inr (10, [1, 2] ! i)} = 3"
    by blast
  from this [rule_format, of 0]
  have c: "card {r'. r' < 6 \<and> fst (generatePOMCPPolicy exampleSimulator examplePlanner 10 2 r' (?g, 5))
                                 = Inr (10, 1)} = 3"
    by simp
  from h dist s7 s4 c show ?thesis by blast
qed

text \<open>With one particle the statistics do change: the root is visited.\<close>

lemma generatePOMCPPolicy_one_particle:
  "thisQVvisit (stateProperty (fst (snd (generatePOMCPPolicy exampleSimulator
       (examplePlanner\<lparr>numPOMCPParticles := 1\<rparr>) 10 2 7 (exampleGraph, 5)))) 10) = 2
   \<and> thisQVvisit (stateProperty exampleGraph 10) = 1"
  by (simp add: generatePOMCPPolicy_def particleCount_def particleStep_def boost_edge_def
      minQcosttogoLoop_def minQcosttogoStep_def breakTie_def stat_defs graph_defs example_defs Let_def)

subsection \<open>Rollout weights\<close>

lemma rolloutReachedFlag_first:
  "rolloutReachedFlag reached (q # qs) = reached q"
  by (simp add: rolloutReachedFlag_def)

text \<open>
  C6. The claim: the within-reach weights are used exactly when the belief is within
  reach of any neighbour. The flag is read off the first child action only: with child
  actions 1 and 2 and the belief within reach of 2 alone, every weight is
  \<open>1 / (Q^cExploitationForRolloutOutOfReach + costToGoRegulatorOutOfReach)\<close>
  (exponent 2, regulator 1 in the example); within reach of 1, the within-reach
  constants (exponent 1, regulator 10) are used.
\<close>

theorem rollout_flag_reads_first_neighbor_only:
  "rolloutWeights examplePlanner pow (\<lambda>q. q = 2) exampleVertex
     = [1 / (pow 1 2 + 1), 1 / (pow 5 2 + 1)]
   \<and> rolloutWeights examplePlanner pow (\<lambda>q. q = 1) exampleVertex
     = [1 / (pow 1 1 + 10), 1 / (pow 5 1 + 10)]
   \<and> getChildQcosttogo exampleVertex 1 = 1 \<and> getChildQcosttogo exampleVertex 2 = 5
   \<and> childQnodes exampleVertex = [1, 2]"
  by (simp add: rolloutWeights_def rolloutWeight_def rolloutReachedFlag_def stat_defs example_defs)

subsection \<open>Pruning\<close>

lemma pruneRel_refl: "pruneRel P g g"
  by (simp add: pruneRel_def pruned_def)

lemma pruneRel_node:
  assumes "v \<notin> set (freedStates g)"
  shows "pruneRel P g (prunePOMCPNode P v g)"
proof (cases "v = startM0 P")
  case True
  then show ?thesis by (simp add: prunePOMCPNode_def pruneRel_refl)
next
  case False
  have D: "pruned g (prunePOMCPNode P v g) = {v}"
    using assms False by (auto simp: pruned_def prunePOMCPNode_def clear_vertex_def Let_def)
  show ?thesis
    unfolding pruneRel_def D
    using False by (auto simp: prunePOMCPNode_def clear_vertex_def out_edges_def Let_def)
qed

lemma pruneRel_trans:
  assumes 1: "pruneRel P g g1" and 2: "pruneRel P g1 g2"
  shows "pruneRel P g g2"
proof -
  let ?D1 = "pruned g g1" and ?D2 = "pruned g1 g2" and ?D = "pruned g g2"
  from 1 2 have sub: "set (freedStates g) \<subseteq> set (freedStates g1)"
      "set (freedStates g1) \<subseteq> set (freedStates g2)"
    by (simp_all add: pruneRel_def)
  then have D: "?D = ?D1 \<union> ?D2" by (auto simp: pruned_def)
  have e1: "edges g1 = filter (\<lambda>e. fst e \<notin> ?D1 \<and> snd e \<notin> ?D1) (edges g)"
    and e2: "edges g2 = filter (\<lambda>e. fst e \<notin> ?D2 \<and> snd e \<notin> ?D2) (edges g1)"
    using 1 2 by (simp_all add: pruneRel_def)
  have c1: "set (edgeControllers g1) \<subseteq> set (edgeControllers g)"
    and c2: "set (edgeControllers g2) \<subseteq> set (edgeControllers g1)"
    using 1 2 by (simp_all add: pruneRel_def)
  have k1: "\<And>e. e \<in> set (edgeControllers g) \<Longrightarrow> fst e \<notin> ?D1 \<Longrightarrow> e \<in> set (edgeControllers g1)"
    and k2: "\<And>e. e \<in> set (edgeControllers g1) \<Longrightarrow> fst e \<notin> ?D2 \<Longrightarrow> e \<in> set (edgeControllers g2)"
    using 1 2 by (simp_all add: pruneRel_def)
  have l1: "\<And>e. e \<in> set (edgeControllers g1) \<Longrightarrow> e \<in> set (edges g) \<Longrightarrow> fst e \<in> ?D1 \<Longrightarrow> snd e \<in> ?D1"
    and l2: "\<And>e. e \<in> set (edgeControllers g2) \<Longrightarrow> e \<in> set (edges g1) \<Longrightarrow> fst e \<in> ?D2 \<Longrightarrow> snd e \<in> ?D2"
    using 1 2 by (simp_all add: pruneRel_def)
  have "stateProperty g2 = stateProperty g" using 1 2 by (simp add: pruneRel_def)
  moreover have "startM0 P \<notin> ?D" using 1 2 unfolding D by (simp add: pruneRel_def)
  moreover have "set (freedStates g) \<subseteq> set (freedStates g2)" using sub by blast
  moreover have "edges g2 = filter (\<lambda>e. fst e \<notin> ?D \<and> snd e \<notin> ?D) (edges g)"
    unfolding e2 e1 D by (auto intro: filter_cong)
  moreover have "set (edgeControllers g2) \<subseteq> set (edgeControllers g)" using c1 c2 by blast
  moreover have "\<forall>e\<in>set (edgeControllers g). fst e \<notin> ?D \<longrightarrow> e \<in> set (edgeControllers g2)"
    unfolding D using k1 k2 by blast
  moreover have "\<forall>e\<in>set (edgeControllers g2). e \<in> set (edges g) \<longrightarrow> fst e \<in> ?D \<longrightarrow> snd e \<in> ?D"
  proof (intro ballI impI)
    fix e assume e: "e \<in> set (edgeControllers g2)" "e \<in> set (edges g)" "fst e \<in> ?D"
    then have eg1: "e \<in> set (edgeControllers g1)" using c2 by blast
    show "snd e \<in> ?D"
    proof (cases "fst e \<in> ?D1")
      case True
      with l1 [OF eg1 e(2)] show ?thesis unfolding D by simp
    next
      case False
      with e(3) have f2: "fst e \<in> ?D2" unfolding D by simp
      show ?thesis
      proof (cases "snd e \<in> ?D1")
        case True then show ?thesis unfolding D by simp
      next
        case s: False
        from False s e(2) have "e \<in> set (edges g1)" unfolding e1 by simp
        from l2 [OF e(1) this f2] show ?thesis unfolding D by simp
      qed
    qed
  qed
  ultimately show ?thesis unfolding pruneRel_def by blast
qed

lemma forEach_pruneRel:
  assumes body: "\<And>x g g'. body x g = Some (Inr g') \<Longrightarrow> pruneRel P g g'"
  shows "forEach body xs g = Some (Inr g') \<Longrightarrow> pruneRel P g g'"
proof (induction xs arbitrary: g)
  case Nil
  then show ?case by (simp add: pruneRel_refl)
next
  case (Cons x xs)
  from Cons.prems obtain g1 where g1: "body x g = Some (Inr g1)" "forEach body xs g1 = Some (Inr g')"
    by (auto split: option.splits sum.splits)
  from body [OF g1(1)] Cons.IH [OF g1(2)] show ?case by (rule pruneRel_trans)
qed

lemma prunePOMCPTreeFrom_pruneRel:
  "prunePOMCPTreeFrom fuel P v g = Some (Inr g') \<Longrightarrow>
   pruneRel P g g' \<and> (v \<noteq> startM0 P \<longrightarrow> v \<in> pruned g g')"
proof (induction fuel arbitrary: v g g')
  case 0
  then show ?case by simp
next
  case (Suc fuel)
  let ?rootState = "stateProperty g v"
  let ?body = "\<lambda>childQnode g'.
                 let childQVnode = getChildQVnode ?rootState childQnode in
                 if childQVnode \<noteq> INVALID_VERTEX_ID P
                 then prunePOMCPTreeFrom fuel P childQVnode g'
                 else Some (Inr g')"
  let ?children = "if childQexpanded ?rootState then forEach ?body (childQnodes ?rootState) g
                   else Some (Inr g)"
  from Suc.prems have nf: "v \<notin> set (freedStates g)"
    by (auto split: if_splits)
  from Suc.prems nf obtain g1 where g1: "?children = Some (Inr g1)"
      "v \<notin> set (freedStates g1)" "g' = prunePOMCPNode P v g1"
    by (auto simp: Let_def split: option.splits sum.splits if_splits)
  have body: "pruneRel P h h'" if "?body x h = Some (Inr h')" for x h h'
    using that Suc.IH [of _ h h'] by (auto simp: Let_def pruneRel_refl split: if_splits)
  have r1: "pruneRel P g g1"
  proof (cases "childQexpanded ?rootState")
    case True
    with g1(1) have "forEach ?body (childQnodes ?rootState) g = Some (Inr g1)" by simp
    with body show ?thesis by (rule forEach_pruneRel)
  next
    case False
    with g1(1) show ?thesis by (simp add: pruneRel_refl)
  qed
  have r2: "pruneRel P g1 g'" unfolding g1(3) using g1(2) by (rule pruneRel_node)
  from r1 r2 have r: "pruneRel P g g'" by (rule pruneRel_trans)
  have "v \<in> pruned g g'" if "v \<noteq> startM0 P"
    using that nf unfolding g1(3) by (simp add: pruned_def prunePOMCPNode_def clear_vertex_def Let_def)
  with r show ?case by blast
qed


text \<open>A result of \<^verbatim>\<open>prunePOMCPTreeFrom\<close> does not depend on the fuel: more fuel gives the same.\<close>

lemma forEach_mono:
  assumes "\<And>x s r. x \<in> set xs \<Longrightarrow> body x s = Some r \<Longrightarrow> body' x s = Some r"
  shows "forEach body xs s = Some r \<Longrightarrow> forEach body' xs s = Some r"
  using assms
proof (induction xs arbitrary: s)
  case Nil
  then show ?case by simp
next
  case (Cons x xs)
  from Cons.prems(1) obtain y where y: "body x s = Some y"
    by (auto split: option.splits)
  with Cons.prems(2) have y': "body' x s = Some y" by simp
  show ?case
  proof (cases y)
    case (Inl e)
    with y y' Cons.prems(1) show ?thesis by auto
  next
    case (Inr s')
    with y Cons.prems(1) have "forEach body xs s' = Some r" by simp
    then have "forEach body' xs s' = Some r"
      using Cons.prems(2) by (intro Cons.IH) auto
    with y' Inr show ?thesis by simp
  qed
qed

lemma prunePOMCPTreeFrom_more_fuel:
  "prunePOMCPTreeFrom fuel P v g = Some r \<Longrightarrow> prunePOMCPTreeFrom (Suc fuel) P v g = Some r"
proof (induction fuel arbitrary: v g r)
  case 0
  then show ?case by simp
next
  case (Suc fuel)
  let ?rootState = "stateProperty g v"
  let ?body = "\<lambda>n childQnode g'.
                 let childQVnode = getChildQVnode ?rootState childQnode in
                 if childQVnode \<noteq> INVALID_VERTEX_ID P
                 then prunePOMCPTreeFrom n P childQVnode g'
                 else Some (Inr g')"
  let ?children = "\<lambda>n. if childQexpanded ?rootState
                        then forEach (?body n) (childQnodes ?rootState) g else Some (Inr g)"
  have U: "prunePOMCPTreeFrom (Suc n) P v g =
             (if v \<in> set (freedStates g) then Some (Inl UseAfterFree)
              else case ?children n of
                     None \<Rightarrow> None
                   | Some (Inl e) \<Rightarrow> Some (Inl e)
                   | Some (Inr g') \<Rightarrow>
                       if v \<in> set (freedStates g') then Some (Inl UseAfterFree)
                       else Some (Inr (prunePOMCPNode P v g')))" for n
    by (simp only: prunePOMCPTreeFrom.simps Let_def)
  have b: "?body (Suc fuel) x s = Some y" if "?body fuel x s = Some y" for x s y
  proof (cases "getChildQVnode ?rootState x \<noteq> INVALID_VERTEX_ID P")
    case True
    with that have "prunePOMCPTreeFrom fuel P (getChildQVnode ?rootState x) s = Some y"
      by (simp add: Let_def del: prunePOMCPTreeFrom.simps)
    from Suc.IH [OF this] True show ?thesis
      by (simp add: Let_def del: prunePOMCPTreeFrom.simps)
  next
    case False
    with that show ?thesis by (simp add: Let_def del: prunePOMCPTreeFrom.simps)
  qed
  have f: "forEach (?body (Suc fuel)) xs s = Some y" if "forEach (?body fuel) xs s = Some y" for xs s y
    using that by (rule forEach_mono [rotated]) (rule b)
  have c: "?children (Suc fuel) = Some y" if "?children fuel = Some y" for y
  proof (cases "childQexpanded ?rootState")
    case True
    with that have "forEach (?body fuel) (childQnodes ?rootState) g = Some y" by (simp only: if_True)
    from f [OF this] True show ?thesis by (simp only: if_True)
  next
    case False
    with that show ?thesis by (simp only: if_False)
  qed
  from Suc.prems have p: "(if v \<in> set (freedStates g) then Some (Inl UseAfterFree)
              else case ?children fuel of
                     None \<Rightarrow> None
                   | Some (Inl e) \<Rightarrow> Some (Inl e)
                   | Some (Inr g') \<Rightarrow>
                       if v \<in> set (freedStates g') then Some (Inl UseAfterFree)
                       else Some (Inr (prunePOMCPNode P v g'))) = Some r"
    unfolding U .
  show ?case
  proof (cases "v \<in> set (freedStates g)")
    case True
    with p show ?thesis unfolding U [of "Suc fuel"] by (simp only: if_True)
  next
    case False
    with p obtain y where y: "?children fuel = Some y"
      by (cases "?children fuel") (simp_all only: if_False option.case)
    from c [OF y] have y': "?children (Suc fuel) = Some y" .
    from p False show ?thesis
      unfolding U [of "Suc fuel"] y y' by (simp only: if_False)
  qed
qed

text \<open>
  C9. The start vertex is never pruned. \<^verbatim>\<open>prunePOMCPNode\<close> on the start vertex changes
  nothing: its state is not freed, no controller is erased, no edge is removed. On any
  other vertex it frees the state, erases the controllers of the out-edges and removes
  every edge from or to the vertex. A call of \<^verbatim>\<open>prunePOMCPTreeFrom\<close> that returns
  leaves the states as they are, never frees the start vertex, keeps every controller
  of an edge out of the start vertex, and removes an edge only when one of its ends was
  pruned; the vertex passed, unless it is the start vertex, and with it every pruned
  vertex has its state freed, no edge left, and no controller left on an out-edge to a
  vertex that was not pruned.
\<close>

theorem start_vertex_never_pruned:
  "prunePOMCPNode P (startM0 P) g = g
   \<and> (v \<noteq> startM0 P \<longrightarrow>
        v \<in> set (freedStates (prunePOMCPNode P v g))
        \<and> (\<forall>e\<in>set (edges g). fst e = v \<longrightarrow> e \<notin> set (edgeControllers (prunePOMCPNode P v g)))
        \<and> (\<forall>e\<in>set (edges (prunePOMCPNode P v g)). fst e \<noteq> v \<and> snd e \<noteq> v))
   \<and> (prunePOMCPTreeFrom fuel P v g = Some (Inr g') \<longrightarrow>
        stateProperty g' = stateProperty g
        \<and> startM0 P \<notin> pruned g g'
        \<and> (\<forall>e\<in>set (edgeControllers g). fst e = startM0 P \<longrightarrow> e \<in> set (edgeControllers g'))
        \<and> (\<forall>e\<in>set (edges g). fst e \<notin> pruned g g' \<and> snd e \<notin> pruned g g' \<longrightarrow> e \<in> set (edges g'))
        \<and> (v \<noteq> startM0 P \<longrightarrow> v \<in> pruned g g')
        \<and> (\<forall>u\<in>pruned g g'.
              u \<in> set (freedStates g')
              \<and> (\<forall>e\<in>set (edges g'). fst e \<noteq> u \<and> snd e \<noteq> u)
              \<and> (\<forall>e\<in>set (edges g). fst e = u \<and> snd e \<notin> pruned g g' \<longrightarrow> e \<notin> set (edgeControllers g'))))"
proof -
  have A: "prunePOMCPNode P (startM0 P) g = g" by (simp add: prunePOMCPNode_def)
  have B: "v \<in> set (freedStates (prunePOMCPNode P v g))
        \<and> (\<forall>e\<in>set (edges g). fst e = v \<longrightarrow> e \<notin> set (edgeControllers (prunePOMCPNode P v g)))
        \<and> (\<forall>e\<in>set (edges (prunePOMCPNode P v g)). fst e \<noteq> v \<and> snd e \<noteq> v)"
    if "v \<noteq> startM0 P"
    using that by (auto simp: prunePOMCPNode_def clear_vertex_def out_edges_def Let_def)
  have C: "stateProperty g' = stateProperty g
        \<and> startM0 P \<notin> pruned g g'
        \<and> (\<forall>e\<in>set (edgeControllers g). fst e = startM0 P \<longrightarrow> e \<in> set (edgeControllers g'))
        \<and> (\<forall>e\<in>set (edges g). fst e \<notin> pruned g g' \<and> snd e \<notin> pruned g g' \<longrightarrow> e \<in> set (edges g'))
        \<and> (v \<noteq> startM0 P \<longrightarrow> v \<in> pruned g g')
        \<and> (\<forall>u\<in>pruned g g'.
              u \<in> set (freedStates g')
              \<and> (\<forall>e\<in>set (edges g'). fst e \<noteq> u \<and> snd e \<noteq> u)
              \<and> (\<forall>e\<in>set (edges g). fst e = u \<and> snd e \<notin> pruned g g' \<longrightarrow> e \<notin> set (edgeControllers g')))"
    if a: "prunePOMCPTreeFrom fuel P v g = Some (Inr g')"
  proof -
    from prunePOMCPTreeFrom_pruneRel [OF a]
    have r: "pruneRel P g g'" and v: "v \<noteq> startM0 P \<longrightarrow> v \<in> pruned g g'" by simp_all
    from r have 1: "stateProperty g' = stateProperty g" by (simp add: pruneRel_def)
    from r have 2: "startM0 P \<notin> pruned g g'" by (simp add: pruneRel_def)
    from r 2 have 3: "\<forall>e\<in>set (edgeControllers g). fst e = startM0 P \<longrightarrow> e \<in> set (edgeControllers g')"
      by (auto simp: pruneRel_def)
    from r have e: "edges g' = filter (\<lambda>e. fst e \<notin> pruned g g' \<and> snd e \<notin> pruned g g') (edges g)"
      by (simp add: pruneRel_def)
    have 4: "\<forall>e\<in>set (edges g). fst e \<notin> pruned g g' \<and> snd e \<notin> pruned g g' \<longrightarrow> e \<in> set (edges g')"
      unfolding e by simp
    have 5: "\<forall>u\<in>pruned g g'.
              u \<in> set (freedStates g')
              \<and> (\<forall>e\<in>set (edges g'). fst e \<noteq> u \<and> snd e \<noteq> u)
              \<and> (\<forall>e\<in>set (edges g). fst e = u \<and> snd e \<notin> pruned g g' \<longrightarrow> e \<notin> set (edgeControllers g'))"
    proof (intro ballI conjI)
      fix u assume u: "u \<in> pruned g g'"
      then show "u \<in> set (freedStates g')" by (simp add: pruned_def)
      have "fst x \<noteq> u \<and> snd x \<noteq> u" if "x \<in> set (edges g')" for x
        using that u unfolding e by auto
      then show "\<And>x. x \<in> set (edges g') \<Longrightarrow> fst x \<noteq> u"
        and "\<And>x. x \<in> set (edges g') \<Longrightarrow> snd x \<noteq> u" by blast+
      show "\<And>x. x \<in> set (edges g) \<Longrightarrow> fst x = u \<and> snd x \<notin> pruned g g' \<longrightarrow> x \<notin> set (edgeControllers g')"
        using r u by (auto simp: pruneRel_def)
    qed
    from 1 2 3 4 5 v show ?thesis by blast
  qed
  from A B C show ?thesis by blast
qed

text \<open>Pruning the example tree from its root, with fuel for its three levels.\<close>

lemma prune_example:
  "prunePOMCPTreeFrom 3 examplePlanner 10 exampleGraph
     = Some (Inr (exampleGraph\<lparr>edges := [(0, 1), (0, 2)], edgeControllers := [(0, 1), (0, 2)],
                                freedStates := [10, 12, 11, 13]\<rparr>))"
  by (simp add: numeral_3_eq_3 prunePOMCPNode_def clear_vertex_def out_edges_def
      graph_defs example_defs getChildQVnode_def Let_def)

theorem start_vertex_never_pruned_witness:
  "10 \<noteq> startM0 examplePlanner
   \<and> prunePOMCPTreeFrom 3 examplePlanner 10 exampleGraph
       = Some (Inr (exampleGraph\<lparr>edges := [(0, 1), (0, 2)], edgeControllers := [(0, 1), (0, 2)],
                                  freedStates := [10, 12, 11, 13]\<rparr>))
   \<and> pruned exampleGraph (exampleGraph\<lparr>edges := [(0, 1), (0, 2)], edgeControllers := [(0, 1), (0, 2)],
                                  freedStates := [10, 12, 11, 13]\<rparr>) = {10, 11, 12, 13}
   \<and> prunePOMCPTreeFrom 3 examplePlanner 0 exampleGraph = Some (Inr exampleGraph)"
proof -
  have h1: "10 \<noteq> startM0 examplePlanner" by (simp add: example_defs)
  have h3: "pruned exampleGraph (exampleGraph\<lparr>edges := [(0, 1), (0, 2)], edgeControllers := [(0, 1), (0, 2)],
                                  freedStates := [10, 12, 11, 13]\<rparr>) = {10, 11, 12, 13}"
    by (auto simp: pruned_def graph_defs)
  have h4: "prunePOMCPTreeFrom 3 examplePlanner 0 exampleGraph = Some (Inr exampleGraph)"
    by (simp add: numeral_3_eq_3 prunePOMCPNode_def graph_defs example_defs Let_def)
  from start_vertex_never_pruned [of examplePlanner exampleGraph 10 3
         "exampleGraph\<lparr>edges := [(0, 1), (0, 2)], edgeControllers := [(0, 1), (0, 2)],
                        freedStates := [10, 12, 11, 13]\<rparr>"]
       start_vertex_never_pruned [of examplePlanner exampleGraph 0 3 exampleGraph]
       h1 prune_example h3 h4
  show ?thesis by blast
qed

end
